theory Spec2Isabelle
  imports Main "HOL-Library.Word" "HOL-Library.Multiset"
begin

unbundle bit_operations_syntax

section \<open>Data model of util.cpp\<close>

text \<open>
  \<open>size_t\<close>, \<open>uintptr_t\<close> and pointers are 64-bit words: \<open>+\<close>, \<open>-\<close> and \<open>*\<close> wrap
  around as the unsigned arithmetic of the source does, \<open>\<le>\<close> and \<open><\<close> compare unsigned.
  The null pointer is the word 0. Memory is a total map from addresses to bytes.
\<close>

type_synonym size_t = "64 word"
type_synonym ptr = "64 word"
type_synonym memory = "ptr \<Rightarrow> 8 word"

text \<open>
  Every \<open>assert\<close> of the source is a branch of the model that returns the text of the
  failed condition.
\<close>

datatype error = AssertFailed string

text \<open>
  The platform: what util.cpp takes from util.hpp and from the system and the C++ library,
  none of which is in the source files at hand. The two constants are declared in util.hpp.
  \<open>posix_memalign\<close> maps the blocks handed out so far, the alignment and the byte count to
  the result code and the pointer stored through its first argument. \<open>shuffle\<close> stands for
  \<open>std::shuffle(begin, end, std::mt19937_64{seed})\<close>: from the seed of a freshly
  constructed engine and the vector to the permuted vector.
\<close>

record platform =
  UB_CACHE_LINE_SIZE :: size_t
  MAX_SHUFFLED_REGION_SIZE :: size_t
  posix_memalign :: "(ptr \<times> size_t) list \<Rightarrow> size_t \<Rightarrow> size_t \<Rightarrow> int \<times> ptr"
  shuffle :: "64 word \<Rightarrow> size_t list \<Rightarrow> size_t list"

text \<open>
  The process state: the global \<open>storage_ptr\<close> (initially null), the function-local static
  \<open>storage_\<close> of \<open>shuffled_region\<close> (the field \<open>storage_static\<close>, as a name cannot end in an
  underscore here; \<open>None\<close> until its initialiser has run), the memory, the blocks
  \<open>posix_memalign\<close> has returned, newest first, each with its base and length, and the
  calls of \<open>std::memset\<close> made so far, oldest first, each with its pointer, byte and count.
\<close>

record state =
  storage_ptr :: ptr
  storage_static :: "ptr option"
  mem :: memory
  blocks :: "(ptr \<times> size_t) list"
  memsets :: "(ptr \<times> 8 word \<times> size_t) list"

definition TWO_MB :: size_t where
  "TWO_MB = 2 * 1024 * 1024"

definition STORAGE_SIZE :: size_t where
  "STORAGE_SIZE = 100 * 1024 * 1024"

definition initial_state :: state where
  "initial_state = \<lparr>storage_ptr = 0, storage_static = None, mem = (\<lambda>_. 0), blocks = [],
                     memsets = []\<rparr>"

section \<open>Memory operations\<close>

text \<open>\<open>std::memset(p, c, n)\<close>: the \<open>n\<close> bytes from \<open>p\<close> on become \<open>c\<close>.\<close>

definition memset :: "memory \<Rightarrow> ptr \<Rightarrow> 8 word \<Rightarrow> size_t \<Rightarrow> memory" where
  "memset m p c n = (\<lambda>a. if a - p < n then c else m a)"

text \<open>A call of \<open>std::memset\<close> in a state: the memory changes and the call is recorded.\<close>

definition do_memset :: "state \<Rightarrow> ptr \<Rightarrow> 8 word \<Rightarrow> size_t \<Rightarrow> state" where
  "do_memset s p c n = s\<lparr>mem := memset (mem s) p c n, memsets := memsets s @ [(p, c, n)]\<rparr>"

text \<open>
  The number of bytes of an allocated block that lie at and after a pointer into it
  (0 when the pointer is in no block).
\<close>

fun bytes_from :: "(ptr \<times> size_t) list \<Rightarrow> ptr \<Rightarrow> nat" where
  "bytes_from [] p = 0"
| "bytes_from ((b, n) # bs) p =
     (if p - b \<le> n then unat n - unat (p - b) else bytes_from bs p)"

section \<open>Huge-page allocator\<close>

text \<open>
  \<open>new_huge_ptr\<close>: the block of \<open>size + TWO_MB\<close> bytes is requested with alignment
  \<open>TWO_MB\<close>; the result code is asserted to be 0; \<open>madvise\<close> is advisory and changes no
  memory; the pointer is advanced by \<open>TWO_MB\<close> and \<open>size\<close> bytes from there are set to 1
  and then to 0.
\<close>

definition new_huge_ptr :: "platform \<Rightarrow> state \<Rightarrow> size_t \<Rightarrow> error + (state \<times> ptr)" where
  "new_huge_ptr pf s sz =
     (let (result, ptr) = posix_memalign pf (blocks s) TWO_MB (sz + TWO_MB)
      in if result \<noteq> 0 then Inl (AssertFailed ''result == 0'')
         else
           let s1 = s\<lparr>blocks := (ptr, sz + TWO_MB) # blocks s\<rparr>;
               ptr = ptr + TWO_MB;
               s2 = do_memset s1 ptr 1 sz;
               s3 = do_memset s2 ptr 0 sz
           in Inr (s3, ptr))"

section \<open>Alignment engine\<close>

text \<open>
  Modelled from the spec: \<open>is_pow2\<close> is declared in util.hpp, which is not among the source
  files; the spec requires the alignment to be a power of two.
\<close>

definition is_pow2 :: "size_t \<Rightarrow> bool" where
  "is_pow2 x \<longleftrightarrow> (\<exists>k \<in> {0..<64}. x = 2 ^ k)"

text \<open>
  \<open>align\<close>: \<open>r\<close> is declared without a value (\<open>None\<close>), set to null when the space is too
  small, and then assigned the aligned address in every case; \<open>space\<close> is a by-value
  parameter, so its update is local. The two assertions follow.
\<close>

definition align :: "size_t \<Rightarrow> size_t \<Rightarrow> ptr \<Rightarrow> size_t \<Rightarrow> error + ptr" where
  "align base_alignment required_size p space =
     (let pn = p;
          aligned = (pn + base_alignment - 1) AND (- base_alignment);
          padding = aligned - pn;
          r = (if space < required_size + padding then Some (0 :: ptr) else None);
          space = space - padding;
          r = Some aligned
      in if the r = 0 then Inl (AssertFailed ''r'')
         else if the r AND (base_alignment - 1) \<noteq> 0
           then Inl (AssertFailed ''(((uintptr_t)r) & (base_alignment - 1)) == 0'')
         else Inr (the r))"

definition aligned_ptr :: "platform \<Rightarrow> state \<Rightarrow> size_t \<Rightarrow> size_t \<Rightarrow> error + (state \<times> ptr)" where
  "aligned_ptr pf s base_alignment required_size =
     (if \<not> (required_size \<le> STORAGE_SIZE) then Inl (AssertFailed ''required_size <= STORAGE_SIZE'')
      else if \<not> is_pow2 base_alignment then Inl (AssertFailed ''is_pow2(base_alignment)'')
      else if \<not> (base_alignment \<le> TWO_MB) then Inl (AssertFailed ''base_alignment <= TWO_MB'')
      else
        case (if storage_ptr s = 0
              then (case new_huge_ptr pf s STORAGE_SIZE of
                      Inl e \<Rightarrow> Inl e
                    | Inr (s', p) \<Rightarrow> Inr (s'\<lparr>storage_ptr := p\<rparr>))
              else Inr s) of
          Inl e \<Rightarrow> Inl e
        | Inr s' \<Rightarrow>
            (case align base_alignment required_size (storage_ptr s') STORAGE_SIZE of
               Inl e \<Rightarrow> Inl e
             | Inr r \<Rightarrow> Inr (s', r)))"

text \<open>
  \<open>misaligned_ptr\<close>: the \<open>ssize_t\<close> misalignment is added to the \<open>char *\<close>; on 64-bit
  words the signed offset and its two's complement bit pattern add alike.
\<close>

definition misaligned_ptr ::
  "platform \<Rightarrow> state \<Rightarrow> size_t \<Rightarrow> size_t \<Rightarrow> 64 word \<Rightarrow> error + (state \<times> ptr)" where
  "misaligned_ptr pf s base_alignment required_size misalignment =
     (case aligned_ptr pf s base_alignment required_size of
        Inl e \<Rightarrow> Inl e
      | Inr (s', p) \<Rightarrow> Inr (s', p + misalignment))"

section \<open>Shuffled region builder\<close>

text \<open>
  A pointer field is eight bytes, least significant byte first (the source targets x86-64):
  byte \<open>i\<close> of the field holds bits \<open>8 * i\<close> to \<open>8 * i + 7\<close> of the pointer. \<open>word_rcat\<close>
  concatenates bytes given most significant first.
\<close>

definition store64 :: "memory \<Rightarrow> ptr \<Rightarrow> 64 word \<Rightarrow> memory" where
  "store64 m a v = (\<lambda>x. if x - a < 8 then ucast (drop_bit (8 * unat (x - a)) v) else m x)"

definition load64 :: "memory \<Rightarrow> ptr \<Rightarrow> 64 word" where
  "load64 m a = word_rcat (rev (map (\<lambda>i. m (a + of_nat i)) [0..<8]))"

text \<open>
  The descriptor \<open>region\<close> is declared in util.hpp; the source fills it with the size and
  the pointer to the first line.
\<close>

record region =
  region_size :: size_t
  start :: ptr

text \<open>
  \<open>storage + i\<close> on a \<open>CacheLine *\<close>: the address of line \<open>i\<close>, where
  \<open>sizeof(CacheLine)\<close> is \<open>UB_CACHE_LINE_SIZE\<close> by the static assertions of the source.
\<close>

definition line :: "platform \<Rightarrow> ptr \<Rightarrow> size_t \<Rightarrow> ptr" where
  "line pf storage i = storage + i * UB_CACHE_LINE_SIZE pf"

text \<open>
  Modelled from the spec: \<open>CacheLine::setNexts\<close> is declared in util.hpp, which is not
  among the source files; the spec has the builder link the first forward-pointer field of a
  line, which sits at the line's own address.
\<close>

definition setNexts :: "memory \<Rightarrow> ptr \<Rightarrow> ptr \<Rightarrow> memory" where
  "setNexts m p next_line = store64 m p next_line"

text \<open>\<open>p->nexts[0]\<close>.\<close>

definition nexts0 :: "memory \<Rightarrow> ptr \<Rightarrow> ptr" where
  "nexts0 m p = load64 m p"

text \<open>
  \<open>count\<close>: the do-while loop follows \<open>nexts[0]\<close> until it is back at \<open>first\<close>. It need not
  end on every memory, so it is a partial function: \<open>None\<close> is a loop that runs forever.
\<close>

partial_function (option) count_loop :: "memory \<Rightarrow> ptr \<Rightarrow> ptr \<Rightarrow> size_t \<Rightarrow> size_t option" where
  "count_loop m first p cnt =
     (let p = nexts0 m p;
          cnt = cnt + 1
      in if p \<noteq> first then count_loop m first p cnt else Some cnt)"

declare count_loop.simps [code]

definition count :: "memory \<Rightarrow> ptr \<Rightarrow> size_t option" where
  "count m first = count_loop m first first 0"

text \<open>
  The linking loop of \<open>shuffled_region\<close>, from \<open>i\<close> up to \<open>size_lines\<close>: returns the memory
  and the last line linked.
\<close>

function link_loop ::
  "platform \<Rightarrow> ptr \<Rightarrow> size_t list \<Rightarrow> size_t \<Rightarrow> memory \<Rightarrow> ptr \<Rightarrow> size_t \<Rightarrow> memory \<times> ptr" where
  "link_loop pf storage indexes size_lines m p i =
     (if i < size_lines
      then let next_line = line pf storage (indexes ! unat i);
               m = setNexts m p next_line;
               p = next_line
           in link_loop pf storage indexes size_lines m p (i + 1)
      else (m, p))"
  by pat_completeness auto
termination
proof (relation "measure (\<lambda>(pf, storage, indexes, size_lines, m, p, i). unat size_lines - unat i)")
  show "wf (measure (\<lambda>(pf :: platform, storage :: ptr, indexes :: size_t list,
              size_lines :: size_t, m :: memory, p :: ptr, i :: size_t). unat size_lines - unat i))"
    by simp
next
  fix pf :: platform and storage :: ptr and indexes :: "size_t list" and size_lines :: size_t
    and m :: memory and p :: ptr and i :: size_t and x xa xb
  assume lt: "i < size_lines"
  then have less: "unat i < unat size_lines"
    by (simp add: word_less_nat_alt)
  moreover have "unat size_lines < 2 ^ LENGTH(64)"
    by (rule unsigned_less)
  ultimately have "unat i + unat (1 :: size_t) < 2 ^ LENGTH(64)"
    by simp
  then have "unat (i + 1) = unat i + unat (1 :: size_t)"
    by (simp only: unat_add_lem)
  with less have "unat (i + 1) = Suc (unat i)" and "unat i < unat size_lines"
    by simp_all
  then show "((pf, storage, indexes, size_lines, xa, xb, i + 1),
                    (pf, storage, indexes, size_lines, m, p, i))
        \<in> measure (\<lambda>(pf, storage, indexes, size_lines, m, p, i). unat size_lines - unat i)"
    by simp
qed

declare link_loop.simps [simp del]

text \<open>
  The declaration \<open>static char* storage_ = static_cast<char*>(new_huge_ptr(...))\<close>: the
  initialiser runs when control first passes the declaration, and never again.
\<close>

definition storage_static_init :: "platform \<Rightarrow> state \<Rightarrow> error + (state \<times> ptr)" where
  "storage_static_init pf s =
     (case storage_static s of
        Some b \<Rightarrow> Inr (s, b)
      | None \<Rightarrow>
          (case new_huge_ptr pf s (MAX_SHUFFLED_REGION_SIZE pf) of
             Inl e \<Rightarrow> Inl e
           | Inr (s', b) \<Rightarrow> Inr (s'\<lparr>storage_static := Some b\<rparr>, b)))"

text \<open>
  \<open>shuffled_region\<close>. The static \<open>storage_\<close> is initialised when control first passes its
  declaration, after the three assertions. \<open>memset(storage, -1, size)\<close> writes the byte 255.
  The index vector is \<open>0, 1, ..\<close> shuffled by an engine seeded with 123; \<open>std::shuffle\<close>
  permutes the vector in place, so it keeps its \<open>size_lines\<close> elements and the reads
  \<open>indexes[0]\<close> and \<open>indexes[i]\<close> for \<open>i < size_lines\<close> are within it (the theorems take
  this from the contract of \<open>std::shuffle\<close>). \<open>_mm_clflush\<close> and
  \<open>_mm_mfence\<close> act on the caches, not on the contents of memory, and have no counterpart
  here. \<open>None\<close> is a call whose \<open>count\<close> never returns.
\<close>

definition shuffled_region ::
  "platform \<Rightarrow> state \<Rightarrow> size_t \<Rightarrow> size_t \<Rightarrow> (error + (state \<times> region)) option" where
  "shuffled_region pf s sz offset =
     (if \<not> (sz + offset \<le> MAX_SHUFFLED_REGION_SIZE pf)
        then Some (Inl (AssertFailed ''size + offset <= MAX_SHUFFLED_REGION_SIZE''))
      else if sz mod UB_CACHE_LINE_SIZE pf \<noteq> 0
        then Some (Inl (AssertFailed ''size % UB_CACHE_LINE_SIZE == 0''))
      else
        let size_lines = sz div UB_CACHE_LINE_SIZE pf
        in if \<not> (size_lines > 0) then Some (Inl (AssertFailed ''size_lines > 0''))
           else
             case storage_static_init pf s of
               Inl e \<Rightarrow> Some (Inl e)
             | Inr (s1, b) \<Rightarrow>
                 let storage = b + offset;
                     s2 = do_memset s1 storage 255 sz;
                     indexes = shuffle pf 123 (map of_nat [0..<unat size_lines]);
                     p = line pf storage (indexes ! 0);
                     (m, p) = link_loop pf storage indexes size_lines (mem s2) p 1;
                     m = setNexts m p (line pf storage (indexes ! 0));
                     s3 = s2\<lparr>mem := m\<rparr>
                 in (case count (mem s3) storage of
                       None \<Rightarrow> None
                     | Some c \<Rightarrow>
                         if c \<noteq> size_lines
                           then Some (Inl (AssertFailed ''count(storage) == size_lines''))
                         else Some (Inr (s3, \<lparr>region_size = sz, start = storage\<rparr>))))"

section \<open>Assumptions on the platform and invariants of the state\<close>

text \<open>
  What POSIX promises of a successful \<open>posix_memalign\<close>: the pointer is a multiple of the
  alignment and the block, with the address one past its end, lies within the address space.
\<close>

definition posix_memalign_contract :: "platform \<Rightarrow> bool" where
  "posix_memalign_contract pf \<longleftrightarrow>
     (\<forall>bs al n p. posix_memalign pf bs al n = (0, p) \<longrightarrow>
        unat p mod unat al = 0 \<and> unat p + unat n < 2 ^ 64)"

text \<open>
  The small arena is either not yet created, or its pointer is a multiple of 2 MB, lies
  \<open>TWO_MB\<close> bytes into a block of \<open>STORAGE_SIZE + TWO_MB\<close> bytes that \<open>posix_memalign\<close>
  returned, and the \<open>STORAGE_SIZE\<close> bytes from it on do not wrap around the address space.
\<close>

definition small_arena_ok :: "state \<Rightarrow> bool" where
  "small_arena_ok s \<longleftrightarrow>
     storage_ptr s = 0 \<or>
     (unat (storage_ptr s) mod unat TWO_MB = 0 \<and>
      unat (storage_ptr s) + unat STORAGE_SIZE \<le> 2 ^ 64 \<and>
      (storage_ptr s - TWO_MB, STORAGE_SIZE + TWO_MB) \<in> set (blocks s))"

text \<open>
  A concrete platform on which the theorems below are instantiated: lines of 64 bytes, a
  large arena of 400 MB, an allocator that hands out blocks at successive multiples of 1 GB
  (and fails with \<open>EINVAL\<close>, 22, where such a block would break the contract), and a shuffle
  that reverses the vector and rotates it by the seed.
\<close>

definition test_posix_memalign :: "(ptr \<times> size_t) list \<Rightarrow> size_t \<Rightarrow> size_t \<Rightarrow> int \<times> ptr" where
  "test_posix_memalign bs al n =
     (let p = 1073741824 * (1 + of_nat (length bs))
      in if unat p mod unat al = 0 \<and> unat p + unat n < 2 ^ 64 then (0, p) else (22, 0))"

definition test_platform :: platform where
  "test_platform =
     \<lparr>UB_CACHE_LINE_SIZE = 64,
      MAX_SHUFFLED_REGION_SIZE = 419430400,
      posix_memalign = test_posix_memalign,
      shuffle = (\<lambda>seed xs. rotate (unat seed) (rev xs))\<rparr>"

text \<open>
  What the C++ standard promises of \<open>std::shuffle\<close>: the result is a permutation of the
  vector. The engine is the one the source constructs, seeded with 123.
\<close>

definition shuffle_contract :: "platform \<Rightarrow> bool" where
  "shuffle_contract pf \<longleftrightarrow> (\<forall>xs. mset (shuffle pf 123 xs) = mset xs)"

text \<open>
  An index vector for \<open>size_lines\<close> lines: every line index below \<open>size_lines\<close> once.
\<close>

definition valid_indexes :: "size_t \<Rightarrow> size_t list \<Rightarrow> bool" where
  "valid_indexes size_lines idx \<longleftrightarrow>
     length idx = unat size_lines \<and> distinct idx \<and> set idx = {x. x < size_lines}"

text \<open>Addresses whose pointer fields of eight bytes do not overlap.\<close>

definition far_apart :: "ptr list \<Rightarrow> bool" where
  "far_apart ps \<longleftrightarrow> (\<forall>i < length ps. \<forall>j < length ps. i \<noteq> j \<longrightarrow> 8 \<le> ps ! i - ps ! j)"

text \<open>
  The lines reached from \<open>first\<close> by following \<open>nexts[0]\<close> zero to \<open>n - 1\<close> times, in order.
\<close>

definition traversal :: "memory \<Rightarrow> ptr \<Rightarrow> nat \<Rightarrow> ptr list" where
  "traversal m first n = map (\<lambda>k. (nexts0 m ^^ k) first) [0..<n]"

text \<open>
  The same lines as indices: the distance of each from \<open>first\<close>, in lines.
\<close>

definition line_order :: "platform \<Rightarrow> memory \<Rightarrow> ptr \<Rightarrow> nat \<Rightarrow> size_t list" where
  "line_order pf m first n =
     map (\<lambda>p. (p - first) div UB_CACHE_LINE_SIZE pf) (traversal m first n)"

text \<open>
  Each arena that exists accounts for one block from \<open>posix_memalign\<close>, and there is no
  other block: the number of blocks is the number of arena pointers that are set.
\<close>

definition arenas_ok :: "state \<Rightarrow> bool" where
  "arenas_ok s \<longleftrightarrow>
     length (blocks s) =
       (if storage_ptr s = 0 then 0 else 1) + (if storage_static s = None then 0 else 1)"

section \<open>Facts about words\<close>

lemma unat_TWO_MB: "unat TWO_MB = 2097152"
  by (simp add: TWO_MB_def)

lemma unat_STORAGE_SIZE: "unat STORAGE_SIZE = 104857600"
  by (simp add: STORAGE_SIZE_def)

lemma unat_pow2:
  assumes "k < 64"
  shows "unat (2 ^ k :: size_t) = 2 ^ k"
proof -
  have lt: "(2::nat) ^ k < 2 ^ 64"
    using assms by (rule power_strict_increasing) simp
  have "unat (2 ^ k :: size_t) = unat (of_nat (2 ^ k) :: size_t)"
    by simp
  also have "\<dots> = 2 ^ k mod 2 ^ 64"
    by (simp only: unat_of_nat) simp
  also have "\<dots> = 2 ^ k"
    using lt by simp
  finally show ?thesis .
qed

lemma is_pow2_exp:
  assumes "is_pow2 a"
  obtains k where "k < 64" and "a = 2 ^ k"
  using assms by (auto simp: is_pow2_def)

lemma pow2_le_two_mb:
  assumes "k < 64" and "(2 ^ k :: size_t) \<le> TWO_MB"
  shows "k \<le> 21"
proof -
  have "(2::nat) ^ k \<le> 2 ^ 21"
    using assms by (simp add: word_le_nat_alt unat_TWO_MB unat_pow2)
  moreover have "(1::nat) < 2"
    by simp
  ultimately show ?thesis
    by (simp only: power_increasing_iff)
qed

lemma two_mb_aligned_take_bit:
  fixes p :: ptr
  assumes "unat p mod unat TWO_MB = 0" and "k \<le> 21"
  shows "take_bit k p = 0"
proof -
  have "2 ^ 21 dvd unat p"
    using assms(1) by (simp add: unat_TWO_MB mod_eq_0_iff_dvd)
  moreover have "(2::nat) ^ k dvd 2 ^ 21"
    using assms(2) by (rule le_imp_power_dvd)
  ultimately have "2 ^ k dvd unat p"
    by (rule dvd_trans[rotated])
  then have "take_bit k (unat p) = 0"
    by (simp add: take_bit_eq_0_iff)
  then have "unat (take_bit k p) = 0"
    by (simp add: unsigned_take_bit_eq)
  then show ?thesis
    by (simp add: unat_eq_0)
qed

lemma two_mb_aligned_mod_pow2:
  fixes p :: ptr
  assumes "unat p mod unat TWO_MB = 0" and "k \<le> 21"
  shows "unat p mod unat (2 ^ k :: size_t) = 0"
proof -
  have "2 ^ 21 dvd unat p"
    using assms(1) by (simp add: unat_TWO_MB mod_eq_0_iff_dvd)
  moreover have "(2::nat) ^ k dvd 2 ^ 21"
    using assms(2) by (rule le_imp_power_dvd)
  ultimately have "2 ^ k dvd unat p"
    by (rule dvd_trans[rotated])
  moreover have "unat (2 ^ k :: size_t) = 2 ^ k"
    using assms(2) by (simp add: unat_pow2)
  ultimately show ?thesis
    by (simp add: mod_eq_0_iff_dvd)
qed

lemma align_up_aligned:
  fixes p :: "64 word"
  assumes "take_bit k p = 0"
  shows "(p + 2 ^ k - 1) AND (- (2 ^ k)) = p"
proof -
  have d: "p AND mask k = 0"
    using assms by (simp add: take_bit_eq_mask)
  have "p + 2 ^ k - 1 = p + mask k"
    by (simp add: mask_eq_exp_minus_1)
  also have "\<dots> = p OR mask k"
    using d by (rule disjunctive_add_eq_or)
  finally have e: "p + 2 ^ k - 1 = p OR mask k" .
  have nb: "\<not> (bit p n \<and> n < k)" for n
  proof -
    have "bit (p AND mask k) n = bit (0 :: 64 word) n"
      using d by simp
    then show ?thesis
      by (auto simp: bit_and_iff bit_mask_iff dest: bit_imp_le_length)
  qed
  have "(p OR mask k) AND NOT (mask k) = p"
    by (rule bit_eqI) (use nb in \<open>auto simp: bit_and_iff bit_or_iff bit_not_iff bit_mask_iff\<close>)
  then show ?thesis
    by (simp only: e minus_exp_eq_not_mask)
qed

section \<open>Facts about the allocator and the alignment engine\<close>

lemma new_huge_ptr_success:
  assumes "posix_memalign pf (blocks s) TWO_MB (sz + TWO_MB) = (0, b)"
  shows "new_huge_ptr pf s sz =
           Inr (do_memset (do_memset (s\<lparr>blocks := (b, sz + TWO_MB) # blocks s\<rparr>)
                             (b + TWO_MB) 1 sz) (b + TWO_MB) 0 sz,
                b + TWO_MB)"
  using assms by (simp add: new_huge_ptr_def Let_def)

lemma do_memset_fields [simp]:
  "storage_ptr (do_memset s p c n) = storage_ptr s"
  "storage_static (do_memset s p c n) = storage_static s"
  "blocks (do_memset s p c n) = blocks s"
  "mem (do_memset s p c n) = memset (mem s) p c n"
  "memsets (do_memset s p c n) = memsets s @ [(p, c, n)]"
  by (simp_all add: do_memset_def)

lemma new_huge_ptr_failure:
  assumes "fst (posix_memalign pf (blocks s) TWO_MB (sz + TWO_MB)) \<noteq> 0"
  shows "new_huge_ptr pf s sz = Inl (AssertFailed ''result == 0'')"
  using assms
  by (cases "posix_memalign pf (blocks s) TWO_MB (sz + TWO_MB)") (simp add: new_huge_ptr_def Let_def)

text \<open>
  The pointer \<open>new_huge_ptr\<close> returns for a block that obeys the contract of
  \<open>posix_memalign\<close>: a multiple of 2 MB, not null, with \<open>sz\<close> bytes of address space after it.
\<close>

lemma huge_ptr_facts:
  fixes b :: ptr
  assumes al: "unat b mod unat TWO_MB = 0"
    and fit: "unat b + unat (sz + TWO_MB) < 2 ^ 64"
    and nowrap: "unat sz + unat TWO_MB < 2 ^ 64"
  shows "unat (b + TWO_MB) = unat b + unat TWO_MB"
    and "unat (b + TWO_MB) mod unat TWO_MB = 0"
    and "unat (b + TWO_MB) + unat sz < 2 ^ 64"
    and "b + TWO_MB \<noteq> 0"
proof -
  have s: "unat (sz + TWO_MB) = unat sz + unat TWO_MB"
    using nowrap by (simp add: unat_add_lem[THEN iffD1])
  have "unat b + unat TWO_MB < 2 ^ LENGTH(64)"
    using fit s by simp
  then show u: "unat (b + TWO_MB) = unat b + unat TWO_MB"
    by (simp only: unat_add_lem)
  show "unat (b + TWO_MB) mod unat TWO_MB = 0"
    using al by (simp add: u)
  show "unat (b + TWO_MB) + unat sz < 2 ^ 64"
    using fit s by (simp add: u)
  have "unat (b + TWO_MB) \<noteq> 0"
    by (simp add: u unat_TWO_MB)
  then show "b + TWO_MB \<noteq> 0"
    by (simp add: unat_eq_0)
qed

lemma align_pow2:
  fixes p :: ptr
  assumes "take_bit k p = 0" and "p \<noteq> 0"
  shows "align (2 ^ k) required_size p space = Inr p"
proof -
  have a: "(p + 2 ^ k - 1) AND (- (2 ^ k)) = p"
    using assms(1) by (rule align_up_aligned)
  have b: "p AND (2 ^ k - 1) = 0"
    using assms(1) by (simp add: take_bit_eq_mask mask_eq_exp_minus_1)
  show ?thesis
    using assms(2) by (simp add: align_def Let_def a b)
qed

lemma aligned_ptr_reuse:
  assumes "storage_ptr s \<noteq> 0" and "unat (storage_ptr s) mod unat TWO_MB = 0"
    and "is_pow2 a" and "a \<le> TWO_MB" and "required_size \<le> STORAGE_SIZE"
  shows "aligned_ptr pf s a required_size = Inr (s, storage_ptr s)"
proof -
  from \<open>is_pow2 a\<close> obtain k where k: "k < 64" "a = 2 ^ k"
    by (rule is_pow2_exp)
  with \<open>a \<le> TWO_MB\<close> have "k \<le> 21"
    by (simp add: pow2_le_two_mb)
  with assms(2) have "take_bit k (storage_ptr s) = 0"
    by (rule two_mb_aligned_take_bit)
  then have "align a required_size (storage_ptr s) STORAGE_SIZE = Inr (storage_ptr s)"
    using assms(1) k by (simp add: align_pow2)
  then show ?thesis
    using assms by (simp add: aligned_ptr_def)
qed

lemma aligned_ptr_create:
  assumes "storage_ptr s = 0"
    and "posix_memalign pf (blocks s) TWO_MB (STORAGE_SIZE + TWO_MB) = (0, b)"
    and "posix_memalign_contract pf"
    and "is_pow2 a" and "a \<le> TWO_MB" and "required_size \<le> STORAGE_SIZE"
  shows "aligned_ptr pf s a required_size =
           Inr ((do_memset (do_memset (s\<lparr>blocks := (b, STORAGE_SIZE + TWO_MB) # blocks s\<rparr>)
                              (b + TWO_MB) 1 STORAGE_SIZE) (b + TWO_MB) 0 STORAGE_SIZE)
                  \<lparr>storage_ptr := b + TWO_MB\<rparr>,
                b + TWO_MB)"
    and "unat (b + TWO_MB) mod unat TWO_MB = 0"
    and "unat (b + TWO_MB) + unat STORAGE_SIZE < 2 ^ 64"
    and "b + TWO_MB \<noteq> 0"
proof -
  have c: "unat b mod unat TWO_MB = 0" "unat b + unat (STORAGE_SIZE + TWO_MB) < 2 ^ 64"
    using assms(2,3) by (auto simp: posix_memalign_contract_def)
  have n: "unat STORAGE_SIZE + unat TWO_MB < 2 ^ 64"
    by (simp add: unat_TWO_MB unat_STORAGE_SIZE)
  show al: "unat (b + TWO_MB) mod unat TWO_MB = 0"
    using c n by (rule huge_ptr_facts(2))
  show "unat (b + TWO_MB) + unat STORAGE_SIZE < 2 ^ 64"
    using c n by (rule huge_ptr_facts(3))
  show nz: "b + TWO_MB \<noteq> 0"
    using c n by (rule huge_ptr_facts(4))
  from \<open>is_pow2 a\<close> obtain k where k: "k < 64" "a = 2 ^ k"
    by (rule is_pow2_exp)
  with \<open>a \<le> TWO_MB\<close> have "k \<le> 21"
    by (simp add: pow2_le_two_mb)
  with al have "take_bit k (b + TWO_MB) = 0"
    by (rule two_mb_aligned_take_bit)
  then have "align a required_size (b + TWO_MB) STORAGE_SIZE = Inr (b + TWO_MB)"
    using nz k by (simp add: align_pow2)
  then show "aligned_ptr pf s a required_size =
           Inr ((do_memset (do_memset (s\<lparr>blocks := (b, STORAGE_SIZE + TWO_MB) # blocks s\<rparr>)
                              (b + TWO_MB) 1 STORAGE_SIZE) (b + TWO_MB) 0 STORAGE_SIZE)
                  \<lparr>storage_ptr := b + TWO_MB\<rparr>,
                b + TWO_MB)"
    using assms by (simp add: aligned_ptr_def new_huge_ptr_success)
qed

text \<open>
  The result of \<open>aligned_ptr\<close> on valid arguments, in a state whose small arena is in order
  and, where the arena is still to be created, with an allocation that succeeds.
\<close>

lemma aligned_ptr_valid:
  assumes pf: "posix_memalign_contract pf"
    and inv: "small_arena_ok s"
    and a: "is_pow2 a" "a \<le> TWO_MB"
    and sz: "required_size \<le> STORAGE_SIZE"
    and alloc: "storage_ptr s = 0 \<longrightarrow>
                  fst (posix_memalign pf (blocks s) TWO_MB (STORAGE_SIZE + TWO_MB)) = 0"
  obtains s' where "aligned_ptr pf s a required_size = Inr (s', storage_ptr s')"
    and "storage_ptr s' \<noteq> 0"
    and "small_arena_ok s'"
    and "storage_ptr s \<noteq> 0 \<longrightarrow> s' = s"
proof (cases "storage_ptr s = 0")
  case False
  with inv have "unat (storage_ptr s) mod unat TWO_MB = 0"
    by (simp add: small_arena_ok_def)
  with False a sz have "aligned_ptr pf s a required_size = Inr (s, storage_ptr s)"
    by (simp add: aligned_ptr_reuse)
  with False inv show ?thesis
    by (intro that[of s]) simp_all
next
  case True
  with alloc obtain b where b: "posix_memalign pf (blocks s) TWO_MB (STORAGE_SIZE + TWO_MB) = (0, b)"
    by (cases "posix_memalign pf (blocks s) TWO_MB (STORAGE_SIZE + TWO_MB)") simp
  let ?s' = "(do_memset (do_memset (s\<lparr>blocks := (b, STORAGE_SIZE + TWO_MB) # blocks s\<rparr>)
                           (b + TWO_MB) 1 STORAGE_SIZE) (b + TWO_MB) 0 STORAGE_SIZE)
               \<lparr>storage_ptr := b + TWO_MB\<rparr>"
  note r = aligned_ptr_create[OF True b pf a sz]
  have "aligned_ptr pf s a required_size = Inr (?s', storage_ptr ?s')"
    using r(1) by simp
  moreover have "storage_ptr ?s' \<noteq> 0"
    using r(4) by simp
  moreover have "small_arena_ok ?s'"
    using r(2,3) by (simp add: small_arena_ok_def)
  ultimately show ?thesis
    using True by (intro that[of ?s']) simp_all
qed

section \<open>Facts about the concrete platform\<close>

lemma test_platform_contract: "posix_memalign_contract test_platform"
  by (auto simp: posix_memalign_contract_def test_platform_def test_posix_memalign_def Let_def
      split: if_splits)

lemma test_first_block:
  "posix_memalign test_platform [] TWO_MB (STORAGE_SIZE + TWO_MB) = (0, 1073741824)"
  by (simp add: test_platform_def test_posix_memalign_def TWO_MB_def STORAGE_SIZE_def)

lemma initial_state_small_arena_ok: "small_arena_ok initial_state"
  by (simp add: small_arena_ok_def initial_state_def)

lemma is_pow2_64: "is_pow2 64"
proof -
  have "(64 :: size_t) = 2 ^ 6"
    by simp
  then show ?thesis
    unfolding is_pow2_def by (intro bexI[of _ 6]) simp_all
qed

lemma is_pow2_4096: "is_pow2 4096"
proof -
  have "(4096 :: size_t) = 2 ^ 12"
    by simp
  then show ?thesis
    unfolding is_pow2_def by (intro bexI[of _ 12]) simp_all
qed

section \<open>The alignment engine: claims\<close>

text \<open>
  The space check of \<open>align\<close> has no effect: whatever the space and the required size, the
  result is the one for any other space and size.
\<close>

lemma align_ignores_space:
  "align base_alignment required_size p space = align base_alignment required_size' p space'"
  by (simp add: align_def Let_def)

text \<open>
  C2. The claim: whenever \<open>space < required_size + padding\<close>, the address computation
  fails by assertion instead of returning an address. In the source the null pointer set
  on that path is overwritten by the assignment that follows, so the assertion on \<open>r\<close> does
  not see it. At alignment 64, required size 128, pointer 2097152 and space 64 the padding is
  0, the space is short of the required size, and \<open>align\<close> returns the pointer.
\<close>

theorem align_returns_when_space_too_small:
  "(((2097152 + 64 - 1) AND (- 64)) - 2097152 = (0 :: size_t)) \<and>
   (64 :: size_t) < 128 + 0 \<and>
   align 64 128 2097152 64 = Inr 2097152"
  by (simp add: align_def Let_def)

text \<open>
  C3. For an alignment that is a power of two not above 2 MB and a size not above
  \<open>STORAGE_SIZE\<close>, \<open>aligned_ptr\<close> returns a pointer \<open>p\<close> that is a multiple of the alignment
  and whose range \<open>[p, p + size)\<close> lies in the arena, the \<open>STORAGE_SIZE\<close> bytes from
  \<open>storage_ptr\<close> on, which are the last \<open>STORAGE_SIZE\<close> bytes of the allocated block. This is
  under the contract of \<open>posix_memalign\<close>, in a state whose small arena is in order, and with
  a successful allocation where the arena is created by this call.
\<close>

theorem aligned_ptr_aligned_within_arena:
  assumes "posix_memalign_contract pf"
    and "small_arena_ok s"
    and "is_pow2 base_alignment" and "base_alignment \<le> TWO_MB"
    and "required_size \<le> STORAGE_SIZE"
    and "storage_ptr s = 0 \<longrightarrow>
           fst (posix_memalign pf (blocks s) TWO_MB (STORAGE_SIZE + TWO_MB)) = 0"
  shows "\<exists>s' p. aligned_ptr pf s base_alignment required_size = Inr (s', p) \<and>
           unat p mod unat base_alignment = 0 \<and>
           unat (storage_ptr s') \<le> unat p \<and>
           unat p + unat required_size \<le> unat (storage_ptr s') + unat STORAGE_SIZE \<and>
           unat (storage_ptr s') + unat STORAGE_SIZE \<le> 2 ^ 64 \<and>
           (storage_ptr s' - TWO_MB, STORAGE_SIZE + TWO_MB) \<in> set (blocks s')"
proof -
  from assms obtain s' where r: "aligned_ptr pf s base_alignment required_size = Inr (s', storage_ptr s')"
    and nz: "storage_ptr s' \<noteq> 0" and ok: "small_arena_ok s'"
    by (rule aligned_ptr_valid)
  from ok nz have al: "unat (storage_ptr s') mod unat TWO_MB = 0"
    and fit: "unat (storage_ptr s') + unat STORAGE_SIZE \<le> 2 ^ 64"
    and blk: "(storage_ptr s' - TWO_MB, STORAGE_SIZE + TWO_MB) \<in> set (blocks s')"
    by (simp_all add: small_arena_ok_def)
  from \<open>is_pow2 base_alignment\<close> obtain k where k: "k < 64" "base_alignment = 2 ^ k"
    by (rule is_pow2_exp)
  with \<open>base_alignment \<le> TWO_MB\<close> have "k \<le> 21"
    by (simp add: pow2_le_two_mb)
  with al have "unat (storage_ptr s') mod unat base_alignment = 0"
    unfolding k by (rule two_mb_aligned_mod_pow2)
  moreover have "unat required_size \<le> unat STORAGE_SIZE"
    using \<open>required_size \<le> STORAGE_SIZE\<close> by (simp add: word_le_nat_alt)
  ultimately show ?thesis
    using r fit blk by auto
qed

theorem aligned_ptr_aligned_within_arena_witness:
  "\<exists>s' p. aligned_ptr test_platform initial_state 64 128 = Inr (s', p) \<and>
     unat p mod unat (64 :: size_t) = 0 \<and>
     unat (storage_ptr s') \<le> unat p \<and>
     unat p + unat (128 :: size_t) \<le> unat (storage_ptr s') + unat STORAGE_SIZE \<and>
     unat (storage_ptr s') + unat STORAGE_SIZE \<le> 2 ^ 64 \<and>
     (storage_ptr s' - TWO_MB, STORAGE_SIZE + TWO_MB) \<in> set (blocks s')"
proof (rule aligned_ptr_aligned_within_arena)
  show "posix_memalign_contract test_platform"
    by (rule test_platform_contract)
  show "small_arena_ok initial_state"
    by (rule initial_state_small_arena_ok)
  show "is_pow2 64"
    by (rule is_pow2_64)
  show "(64 :: size_t) \<le> TWO_MB"
    by (simp add: TWO_MB_def)
  show "(128 :: size_t) \<le> STORAGE_SIZE"
    by (simp add: STORAGE_SIZE_def)
  show "storage_ptr initial_state = 0 \<longrightarrow>
          fst (posix_memalign test_platform (blocks initial_state) TWO_MB (STORAGE_SIZE + TWO_MB)) = 0"
    by (simp add: initial_state_def test_first_block)
qed

text \<open>
  C7. On arguments that satisfy the preconditions of \<open>aligned_ptr\<close>, \<open>misaligned_ptr\<close>
  returns the pointer \<open>aligned_ptr\<close> returns in the same state, plus the misalignment, and
  leaves the same state behind.
\<close>

theorem misaligned_ptr_is_aligned_ptr_plus_offset:
  assumes "posix_memalign_contract pf"
    and "small_arena_ok s"
    and "is_pow2 base_alignment" and "base_alignment \<le> TWO_MB"
    and "required_size \<le> STORAGE_SIZE"
    and "storage_ptr s = 0 \<longrightarrow>
           fst (posix_memalign pf (blocks s) TWO_MB (STORAGE_SIZE + TWO_MB)) = 0"
  shows "\<exists>s' p. aligned_ptr pf s base_alignment required_size = Inr (s', p) \<and>
           misaligned_ptr pf s base_alignment required_size k = Inr (s', p + k)"
proof -
  from assms obtain s' where "aligned_ptr pf s base_alignment required_size = Inr (s', storage_ptr s')"
    by (rule aligned_ptr_valid)
  then show ?thesis
    by (simp add: misaligned_ptr_def)
qed

theorem misaligned_ptr_is_aligned_ptr_plus_offset_witness:
  "\<exists>s' p. aligned_ptr test_platform initial_state 4096 128 = Inr (s', p) \<and>
     misaligned_ptr test_platform initial_state 4096 128 (- 3) = Inr (s', p + (- 3))"
proof (rule misaligned_ptr_is_aligned_ptr_plus_offset)
  show "posix_memalign_contract test_platform"
    by (rule test_platform_contract)
  show "small_arena_ok initial_state"
    by (rule initial_state_small_arena_ok)
  show "is_pow2 4096"
    by (rule is_pow2_4096)
  show "(4096 :: size_t) \<le> TWO_MB"
    by (simp add: TWO_MB_def)
  show "(128 :: size_t) \<le> STORAGE_SIZE"
    by (simp add: STORAGE_SIZE_def)
  show "storage_ptr initial_state = 0 \<longrightarrow>
          fst (posix_memalign test_platform (blocks initial_state) TWO_MB (STORAGE_SIZE + TWO_MB)) = 0"
    by (simp add: initial_state_def test_first_block)
qed

text \<open>
  C9. On valid arguments the padding is zero and \<open>aligned_ptr\<close> returns the base of the
  small arena itself: a call returns \<open>storage_ptr\<close>, which is not null, is a multiple of
  2 MB and lies \<open>TWO_MB\<close> bytes into a block of \<open>STORAGE_SIZE + TWO_MB\<close> bytes that
  \<open>posix_memalign\<close> returned (the arena the call found, where there was one); and a second
  call, whatever its valid arguments, returns the same address.
\<close>

theorem aligned_ptr_returns_arena_base:
  assumes "posix_memalign_contract pf"
    and "small_arena_ok s"
    and "is_pow2 a1" and "a1 \<le> TWO_MB" and "size1 \<le> STORAGE_SIZE"
    and "is_pow2 a2" and "a2 \<le> TWO_MB" and "size2 \<le> STORAGE_SIZE"
    and "storage_ptr s = 0 \<longrightarrow>
           fst (posix_memalign pf (blocks s) TWO_MB (STORAGE_SIZE + TWO_MB)) = 0"
  shows "\<exists>s1 p. aligned_ptr pf s a1 size1 = Inr (s1, p) \<and> p = storage_ptr s1 \<and>
           (p + a1 - 1 AND - a1) - p = 0 \<and>
           aligned_ptr pf s1 a2 size2 = Inr (s1, p) \<and>
           p \<noteq> 0 \<and>
           unat p mod unat TWO_MB = 0 \<and>
           (p - TWO_MB, STORAGE_SIZE + TWO_MB) \<in> set (blocks s1) \<and>
           (storage_ptr s \<noteq> 0 \<longrightarrow> p = storage_ptr s \<and> s1 = s)"
proof -
  from assms(1,2,3,4,5,9) obtain s1
    where r: "aligned_ptr pf s a1 size1 = Inr (s1, storage_ptr s1)"
      and nz: "storage_ptr s1 \<noteq> 0" and ok: "small_arena_ok s1"
      and same: "storage_ptr s \<noteq> 0 \<longrightarrow> s1 = s"
    by (rule aligned_ptr_valid)
  from ok nz have al: "unat (storage_ptr s1) mod unat TWO_MB = 0"
    and blk: "(storage_ptr s1 - TWO_MB, STORAGE_SIZE + TWO_MB) \<in> set (blocks s1)"
    by (simp_all add: small_arena_ok_def)
  from nz al assms(6,7,8) have "aligned_ptr pf s1 a2 size2 = Inr (s1, storage_ptr s1)"
    by (rule aligned_ptr_reuse)
  moreover have "(storage_ptr s1 + a1 - 1 AND - a1) - storage_ptr s1 = 0"
  proof -
    from \<open>is_pow2 a1\<close> obtain k where k: "k < 64" "a1 = 2 ^ k"
      by (rule is_pow2_exp)
    with \<open>a1 \<le> TWO_MB\<close> have "k \<le> 21"
      by (simp add: pow2_le_two_mb)
    with al have "take_bit k (storage_ptr s1) = 0"
      by (rule two_mb_aligned_take_bit)
    then show ?thesis
      unfolding k by (simp only: align_up_aligned) simp
  qed
  ultimately show ?thesis
    using r nz al blk same by auto
qed

theorem aligned_ptr_returns_arena_base_witness:
  "\<exists>s1 p. aligned_ptr test_platform initial_state 64 128 = Inr (s1, p) \<and> p = storage_ptr s1 \<and>
     (p + 64 - 1 AND - 64) - p = 0 \<and>
     aligned_ptr test_platform s1 4096 104857600 = Inr (s1, p) \<and>
     p \<noteq> 0 \<and>
     unat p mod unat TWO_MB = 0 \<and>
     (p - TWO_MB, STORAGE_SIZE + TWO_MB) \<in> set (blocks s1) \<and>
     (storage_ptr initial_state \<noteq> 0 \<longrightarrow> p = storage_ptr initial_state \<and> s1 = initial_state)"
proof (rule aligned_ptr_returns_arena_base)
  show "posix_memalign_contract test_platform"
    by (rule test_platform_contract)
  show "small_arena_ok initial_state"
    by (rule initial_state_small_arena_ok)
  show "is_pow2 64"
    by (rule is_pow2_64)
  show "is_pow2 4096"
    by (rule is_pow2_4096)
  show "(64 :: size_t) \<le> TWO_MB" and "(4096 :: size_t) \<le> TWO_MB"
    by (simp_all add: TWO_MB_def)
  show "(128 :: size_t) \<le> STORAGE_SIZE" and "(104857600 :: size_t) \<le> STORAGE_SIZE"
    by (simp_all add: STORAGE_SIZE_def)
  show "storage_ptr initial_state = 0 \<longrightarrow>
          fst (posix_memalign test_platform (blocks initial_state) TWO_MB (STORAGE_SIZE + TWO_MB)) = 0"
    by (simp add: initial_state_def test_first_block)
qed

section \<open>Facts about pointer fields in memory\<close>

lemma bit_load64:
  "bit (load64 m a) n \<longleftrightarrow> n < 64 \<and> bit (m (a + of_nat (n div 8))) (n mod 8)"
proof (cases "n < 64")
  case True
  then have d: "n div 8 < 8"
    by simp
  have h: "bit (horner_sum uint 256 ws) n \<longleftrightarrow> n div 8 < length ws \<and> bit (ws ! (n div 8)) (n mod 8)"
    for ws :: "8 word list"
    using bit_horner_sum_uint_exp_iff[of ws n] by simp
  show ?thesis
    using True d
    by (simp add: load64_def word_rcat_def bit_word_of_int_iff h del: upt_Suc)
next
  case False
  then have "\<not> bit (load64 m a) n"
    using bit_imp_le_length[of "load64 m a" n] by auto
  with False show ?thesis
    by simp
qed

lemma store64_byte:
  assumes "k < 8"
  shows "store64 m a v (a + of_nat k) = ucast (drop_bit (8 * k) v)"
proof -
  have "unat (of_nat k :: 64 word) = k"
    using assms by (simp add: unat_of_nat)
  moreover from this have "(of_nat k :: 64 word) < 8"
    using assms by (simp add: word_less_nat_alt)
  ultimately show ?thesis
    by (simp add: store64_def)
qed

lemma load64_store64_same: "load64 (store64 m a v) a = v"
proof (rule bit_word_eqI)
  fix n :: nat
  assume "n < LENGTH(64)"
  then have n: "n < 64" "n div 8 < 8"
    by simp_all
  have "bit (load64 (store64 m a v) a) n \<longleftrightarrow>
          bit (ucast (drop_bit (8 * (n div 8)) v) :: 8 word) (n mod 8)"
    using n by (simp add: bit_load64 store64_byte)
  also have "\<dots> \<longleftrightarrow> bit v (8 * (n div 8) + n mod 8)"
    by (simp add: bit_ucast_iff bit_drop_bit_eq)
  also have "8 * (n div 8) + n mod 8 = n"
    by simp
  finally show "bit (load64 (store64 m a v) a) n = bit v n" .
qed

lemma store64_other:
  fixes a x :: ptr
  assumes "8 \<le> x - a"
  shows "store64 m a v x = m x"
proof -
  have "\<not> x - a < 8"
    using assms by (simp add: not_less)
  then show ?thesis
    by (simp add: store64_def)
qed

lemma far_byte:
  fixes a b w :: ptr
  assumes "8 \<le> b - a" and "8 \<le> a - b" and "w < 8"
  shows "8 \<le> b + w - a"
  using assms by unat_arith

lemma load64_store64_other:
  fixes a b :: ptr
  assumes ba: "8 \<le> b - a" and ab: "8 \<le> a - b"
  shows "load64 (store64 m a v) b = load64 m b"
proof (rule bit_word_eqI)
  fix n :: nat
  assume "n < LENGTH(64)"
  then have "n div 8 < 8"
    by simp
  then have "(of_nat (n div 8) :: ptr) < 8"
    by (simp add: word_less_nat_alt unat_of_nat)
  with ba ab have "8 \<le> b + of_nat (n div 8) - a"
    by (rule far_byte)
  then have "store64 m a v (b + of_nat (n div 8)) = m (b + of_nat (n div 8))"
    by (rule store64_other)
  then show "bit (load64 (store64 m a v) b) n = bit (load64 m b) n"
    by (simp add: bit_load64)
qed

lemma nexts0_setNexts_same: "nexts0 (setNexts m p v) p = v"
  by (simp add: nexts0_def setNexts_def load64_store64_same)

lemma nexts0_setNexts_other:
  assumes "8 \<le> q - p" and "8 \<le> p - q"
  shows "nexts0 (setNexts m p v) q = nexts0 m q"
  using assms by (simp add: nexts0_def setNexts_def load64_store64_other)

section \<open>Facts about line addresses and index vectors\<close>

lemma word_far:
  fixes X Y :: ptr
  assumes "unat X + 8 \<le> unat Y \<or> unat Y + 8 \<le> unat X"
    and "unat X + 8 < 2 ^ 64" and "unat Y + 8 < 2 ^ 64"
  shows "8 \<le> X - Y"
proof (cases "unat Y \<le> unat X")
  case True
  then have "unat (X - Y) = unat X - unat Y"
    by (simp add: unat_sub_if')
  moreover have "unat Y + 8 \<le> unat X"
    using assms(1) True by arith
  ultimately have "8 \<le> unat (X - Y)"
    by arith
  then show ?thesis
    by (simp add: word_le_nat_alt)
next
  case False
  then have "unat (X - Y) = unat X + 2 ^ 64 - unat Y"
    by (simp add: unat_sub_if')
  then have "8 \<le> unat (X - Y)"
    using assms(3) by arith
  then show ?thesis
    by (simp add: word_le_nat_alt)
qed

lemma line_offset:
  fixes i sz cls :: size_t
  assumes "i < sz div cls"
  shows "unat (i * cls) = unat i * unat cls"
    and "unat i * unat cls + unat cls \<le> unat sz"
proof -
  have "unat i < unat sz div unat cls"
    using assms by (simp add: word_less_nat_alt unat_div)
  then have "Suc (unat i) \<le> unat sz div unat cls"
    by simp
  then have "Suc (unat i) * unat cls \<le> (unat sz div unat cls) * unat cls"
    by (rule mult_le_mono1)
  also have "\<dots> \<le> unat sz"
    by simp
  finally show le: "unat i * unat cls + unat cls \<le> unat sz"
    by simp
  have "unat sz < 2 ^ LENGTH(64)"
    by (rule unsigned_less)
  with le have "unat i * unat cls < 2 ^ LENGTH(64)"
    by simp
  then show "unat (i * cls) = unat i * unat cls"
    by (simp only: unat_mult_lem)
qed

lemma line_far:
  assumes cls: "8 \<le> UB_CACHE_LINE_SIZE pf"
    and i: "i < sz div UB_CACHE_LINE_SIZE pf" and j: "j < sz div UB_CACHE_LINE_SIZE pf"
    and ne: "i \<noteq> j"
  shows "8 \<le> line pf st i - line pf st j"
proof -
  let ?c = "UB_CACHE_LINE_SIZE pf"
  have c8: "8 \<le> unat ?c"
    using cls by (simp add: word_le_nat_alt)
  have sz: "unat sz < 2 ^ 64"
    using unsigned_less[of sz] by simp
  note oi = line_offset[OF i] and oj = line_offset[OF j]
  have mono: "unat a * unat ?c + unat ?c \<le> unat b * unat ?c" if "unat a < unat b" for a b :: size_t
  proof -
    from that have "Suc (unat a) \<le> unat b"
      by simp
    then have "Suc (unat a) * unat ?c \<le> unat b * unat ?c"
      by (rule mult_le_mono1)
    then show ?thesis
      by simp
  qed
  have "unat i \<noteq> unat j"
    using ne by (simp add: word_unat_eq_iff)
  then have "unat i < unat j \<or> unat j < unat i"
    by arith
  then have "unat (i * ?c) + 8 \<le> unat (j * ?c) \<or> unat (j * ?c) + 8 \<le> unat (i * ?c)"
    using mono[of i j] mono[of j i] c8 oi(1) oj(1) by auto
  moreover have "unat (i * ?c) + 8 < 2 ^ 64" and "unat (j * ?c) + 8 < 2 ^ 64"
    using oi oj c8 sz by simp_all
  ultimately have "8 \<le> i * ?c - j * ?c"
    by (rule word_far)
  then show ?thesis
    by (simp add: line_def)
qed

lemma iota_valid: "valid_indexes n (map of_nat [0..<unat n])"
proof -
  have lt: "unat n < 2 ^ LENGTH(64)"
    by (rule unsigned_less)
  have u: "unat (of_nat k :: size_t) = k" if "k < unat n" for k
  proof -
    from that lt have "k < 2 ^ LENGTH(64)"
      by (rule less_trans)
    then show ?thesis
      by (simp only: unat_of_nat mod_less)
  qed
  have "inj_on (of_nat :: nat \<Rightarrow> size_t) {0..<unat n}"
  proof (rule inj_onI)
    fix a b :: nat
    assume a: "a \<in> {0..<unat n}" and b: "b \<in> {0..<unat n}"
      and eq: "(of_nat a :: size_t) = of_nat b"
    from eq have "unat (of_nat a :: size_t) = unat (of_nat b :: size_t)"
      by (rule arg_cong)
    moreover have "unat (of_nat a :: size_t) = a" and "unat (of_nat b :: size_t) = b"
      using a b by (simp_all only: u atLeastLessThan_iff)
    ultimately show "a = b"
      by (simp only:)
  qed
  then have "distinct (map of_nat [0..<unat n] :: size_t list)"
    by (simp add: distinct_map)
  moreover have "set (map of_nat [0..<unat n]) = {x. x < n}"
  proof (intro set_eqI iffI)
    fix x :: size_t
    assume "x \<in> set (map of_nat [0..<unat n])"
    then obtain k where k: "k < unat n" and x: "x = of_nat k"
      by auto
    from k have "unat (of_nat k :: size_t) < unat n"
      by (simp only: u)
    then show "x \<in> {x. x < n}"
      unfolding x by (simp only: word_less_nat_alt mem_Collect_eq)
  next
    fix x :: size_t
    assume "x \<in> {x. x < n}"
    then have "unat x \<in> {0..<unat n}"
      by (simp add: word_less_nat_alt)
    then have "(of_nat (unat x) :: size_t) \<in> of_nat ` {0..<unat n}"
      by (rule imageI)
    then show "x \<in> set (map of_nat [0..<unat n])"
      by simp
  qed
  ultimately show ?thesis
    by (simp add: valid_indexes_def)
qed

lemma shuffled_indexes_valid:
  assumes "shuffle_contract pf"
  shows "valid_indexes n (shuffle pf 123 (map of_nat [0..<unat n]))"
proof -
  let ?xs = "map of_nat [0..<unat n] :: size_t list"
  have m: "mset (shuffle pf 123 ?xs) = mset ?xs"
    using assms by (simp add: shuffle_contract_def)
  have v: "valid_indexes n ?xs"
    by (rule iota_valid)
  have "length (shuffle pf 123 ?xs) = length ?xs"
    using m by (rule mset_eq_length)
  moreover have "distinct (shuffle pf 123 ?xs) \<longleftrightarrow> distinct ?xs"
    using m by (rule mset_eq_imp_distinct_iff)
  moreover have "set (shuffle pf 123 ?xs) = set ?xs"
    using m by (rule mset_eq_setD)
  ultimately show ?thesis
    using v by (simp add: valid_indexes_def)
qed

lemma valid_indexes_far_apart:
  assumes "valid_indexes (sz div UB_CACHE_LINE_SIZE pf) idx" and "8 \<le> UB_CACHE_LINE_SIZE pf"
  shows "far_apart (map (line pf st) idx)"
  unfolding far_apart_def
proof (intro allI impI)
  fix i j
  assume i: "i < length (map (line pf st) idx)" and j: "j < length (map (line pf st) idx)"
    and ne: "i \<noteq> j"
  then have "idx ! i \<in> set idx" and "idx ! j \<in> set idx"
    by simp_all
  then have "idx ! i < sz div UB_CACHE_LINE_SIZE pf" and "idx ! j < sz div UB_CACHE_LINE_SIZE pf"
    using assms(1) by (simp_all add: valid_indexes_def)
  moreover have "idx ! i \<noteq> idx ! j"
    using assms(1) i j ne by (simp add: valid_indexes_def nth_eq_iff_index_eq)
  ultimately have "8 \<le> line pf st (idx ! i) - line pf st (idx ! j)"
    using assms(2) by (intro line_far)
  then show "8 \<le> map (line pf st) idx ! i - map (line pf st) idx ! j"
    using i j by simp
qed

lemma far_apart_distinct:
  assumes "far_apart ps"
  shows "distinct ps"
  unfolding distinct_conv_nth
proof (intro allI impI)
  fix i j
  assume "i < length ps" and "j < length ps" and "i \<noteq> j"
  with assms have "8 \<le> ps ! i - ps ! j"
    by (simp add: far_apart_def)
  then show "ps ! i \<noteq> ps ! j"
    by auto
qed

section \<open>Facts about the linking loop and the cycle\<close>

lemma unat_Suc_word:
  fixes i n :: size_t
  assumes "i < n"
  shows "unat (i + 1) = Suc (unat i)"
proof -
  from assms have "unat i < unat n"
    by (simp add: word_less_nat_alt)
  moreover have "unat n < 2 ^ LENGTH(64)"
    by (rule unsigned_less)
  ultimately have "unat i + unat (1 :: size_t) < 2 ^ LENGTH(64)"
    by simp
  then have "unat (i + 1) = unat i + unat (1 :: size_t)"
    by (simp only: unat_add_lem)
  then show ?thesis
    by simp
qed

text \<open>
  The linking loop entered at \<open>i\<close> with \<open>p\<close> at line \<open>indexes[i - 1]\<close>: it ends at the last line
  of the vector, has linked the lines at positions \<open>i - 1\<close> up to the last but one each to
  its successor in the vector, and has left the pointer fields of the other lines alone.
\<close>

lemma link_loop_links:
  assumes "far_apart (map (line pf st) idx)"
    and "length idx = unat size_lines"
    and "0 < unat i" and "unat i \<le> unat size_lines"
    and "p = line pf st (idx ! (unat i - 1))"
  shows "snd (link_loop pf st idx size_lines m p i) = line pf st (idx ! (unat size_lines - 1)) \<and>
         (\<forall>k < unat size_lines.
            nexts0 (fst (link_loop pf st idx size_lines m p i)) (line pf st (idx ! k)) =
              (if unat i - 1 \<le> k \<and> k < unat size_lines - 1 then line pf st (idx ! (k + 1))
               else nexts0 m (line pf st (idx ! k))))"
  using assms
proof (induction pf st idx size_lines m p i rule: link_loop.induct)
  case (1 pf st idx size_lines m p i)
  let ?n = "unat size_lines"
  let ?A = "\<lambda>k. line pf st (idx ! k)"
  show ?case
  proof (cases "i < size_lines")
    case False
    then have "unat i = ?n"
      using "1.prems"(4) by (simp add: word_less_nat_alt)
    moreover have "link_loop pf st idx size_lines m p i = (m, p)"
      using False by (simp add: link_loop.simps[of pf st idx size_lines m p i])
    ultimately show ?thesis
      using "1.prems"(5) by auto
  next
    case True
    let ?next = "?A (unat i)"
    let ?m1 = "setNexts m p ?next"
    have suc: "unat (i + 1) = Suc (unat i)"
      using True by (rule unat_Suc_word)
    have lt: "unat i < ?n"
      using True by (simp add: word_less_nat_alt)
    have step: "link_loop pf st idx size_lines m p i = link_loop pf st idx size_lines ?m1 ?next (i + 1)"
      using True by (simp add: link_loop.simps[of pf st idx size_lines m p i] Let_def)
    have ih: "snd (link_loop pf st idx size_lines ?m1 ?next (i + 1)) = ?A (?n - 1) \<and>
         (\<forall>k < ?n.
            nexts0 (fst (link_loop pf st idx size_lines ?m1 ?next (i + 1))) (?A k) =
              (if unat (i + 1) - 1 \<le> k \<and> k < ?n - 1 then ?A (k + 1) else nexts0 ?m1 (?A k)))"
      using True "1.prems"(1,2) lt suc
      by (intro "1.IH"[OF True refl refl refl]) simp_all
    have far: "8 \<le> ?A k - ?A j" if "k < ?n" and "j < ?n" and "k \<noteq> j" for k j
      using "1.prems"(1,2) that by (simp add: far_apart_def)
    have m1: "nexts0 ?m1 (?A k) = (if k = unat i - 1 then ?next else nexts0 m (?A k))"
      if "k < ?n" for k
    proof (cases "k = unat i - 1")
      case True
      then show ?thesis
        using "1.prems"(5) by (simp add: nexts0_setNexts_same)
    next
      case False
      have j: "unat i - 1 < ?n"
        using lt by simp
      have "nexts0 ?m1 (?A k) = nexts0 m (?A k)"
        unfolding "1.prems"(5)
        using far[OF that j False] far[OF j that False[symmetric]]
        by (intro nexts0_setNexts_other) simp_all
      with False show ?thesis
        by simp
    qed
    show ?thesis
      unfolding step
    proof (intro conjI allI impI)
      show "snd (link_loop pf st idx size_lines ?m1 ?next (i + 1)) = ?A (?n - 1)"
        using ih by simp
    next
      fix k
      assume k: "k < ?n"
      have "nexts0 (fst (link_loop pf st idx size_lines ?m1 ?next (i + 1))) (?A k) =
              (if unat i \<le> k \<and> k < ?n - 1 then ?A (k + 1) else nexts0 ?m1 (?A k))"
        using ih k suc by simp
      also have "\<dots> = (if unat i - 1 \<le> k \<and> k < ?n - 1 then ?A (k + 1) else nexts0 m (?A k))"
        using m1[OF k] "1.prems"(3) lt by auto
      finally show "nexts0 (fst (link_loop pf st idx size_lines ?m1 ?next (i + 1))) (?A k) =
              (if unat i - 1 \<le> k \<and> k < ?n - 1 then ?A (k + 1) else nexts0 m (?A k))" .
    qed
  qed
qed

text \<open>
  The memory the builder leaves: the loop from 1 on, then the link from the last line back
  to the first of the vector.
\<close>

lemma built_links:
  assumes far: "far_apart (map (line pf st) idx)"
    and len: "length idx = unat size_lines"
    and pos: "0 < size_lines"
    and ll: "link_loop pf st idx size_lines m (line pf st (idx ! 0)) 1 = (m', p)"
    and k: "k < unat size_lines"
  shows "nexts0 (setNexts m' p (line pf st (idx ! 0))) (line pf st (idx ! k)) =
           line pf st (idx ! ((k + 1) mod unat size_lines))"
proof -
  let ?n = "unat size_lines"
  let ?A = "\<lambda>k. line pf st (idx ! k)"
  have n: "0 < ?n"
    using pos by (simp add: word_less_nat_alt)
  have "snd (link_loop pf st idx size_lines m (?A 0) 1) = ?A (?n - 1) \<and>
         (\<forall>k < ?n.
            nexts0 (fst (link_loop pf st idx size_lines m (?A 0) 1)) (?A k) =
              (if unat (1 :: size_t) - 1 \<le> k \<and> k < ?n - 1 then ?A (k + 1) else nexts0 m (?A k)))"
    using far len n by (intro link_loop_links) simp_all
  then have p: "p = ?A (?n - 1)"
    and m': "\<And>k. k < ?n - 1 \<Longrightarrow> nexts0 m' (?A k) = ?A (k + 1)"
    using ll by simp_all
  show ?thesis
  proof (cases "k = ?n - 1")
    case True
    then have "(k + 1) mod ?n = 0"
      using n by simp
    then show ?thesis
      using True p by (simp add: nexts0_setNexts_same)
  next
    case False
    then have lt: "k < ?n - 1"
      using k by simp
    then have "(k + 1) mod ?n = k + 1"
      by simp
    moreover have "nexts0 (setNexts m' p (?A 0)) (?A k) = nexts0 m' (?A k)"
    proof -
      have l: "?n - 1 < ?n"
        using n by simp
      have "8 \<le> ?A k - ?A (?n - 1)" and "8 \<le> ?A (?n - 1) - ?A k"
        using far len k l False by (simp_all add: far_apart_def)
      then show ?thesis
        unfolding p by (rule nexts0_setNexts_other)
    qed
    ultimately show ?thesis
      using m'[OF lt] by simp
  qed
qed

text \<open>
  A cycle through a list of distinct addresses: \<open>nexts[0]\<close> of each leads to the next in the
  list, and of the last to the first.
\<close>

lemma cycle_funpow:
  assumes links: "\<And>k. k < length ps \<Longrightarrow> nexts0 m (ps ! k) = ps ! ((k + 1) mod length ps)"
    and j: "j < length ps"
  shows "(nexts0 m ^^ t) (ps ! j) = ps ! ((j + t) mod length ps)"
proof (induction t)
  case 0
  then show ?case
    using j by simp
next
  case (Suc t)
  have "0 < length ps"
    using j by arith
  then have "(j + t) mod length ps < length ps"
    by simp
  then have "nexts0 m (ps ! ((j + t) mod length ps)) = ps ! (((j + t) mod length ps + 1) mod length ps)"
    by (rule links)
  also have "((j + t) mod length ps + 1) mod length ps = (j + Suc t) mod length ps"
    by (simp add: mod_Suc_eq)
  finally show ?case
    using Suc by simp
qed

lemma cycle_traversal:
  assumes links: "\<And>k. k < length ps \<Longrightarrow> nexts0 m (ps ! k) = ps ! ((k + 1) mod length ps)"
    and j: "j < length ps"
  shows "traversal m (ps ! j) (length ps) = rotate j ps"
proof (rule nth_equalityI)
  show "length (traversal m (ps ! j) (length ps)) = length (rotate j ps)"
    by (simp add: traversal_def)
next
  fix t
  assume "t < length (traversal m (ps ! j) (length ps))"
  then have t: "t < length ps"
    by (simp add: traversal_def)
  then have "traversal m (ps ! j) (length ps) ! t = (nexts0 m ^^ t) (ps ! j)"
    by (simp add: traversal_def)
  also have "\<dots> = ps ! ((j + t) mod length ps)"
    using links j by (rule cycle_funpow)
  also have "\<dots> = rotate j ps ! t"
    using t by (simp add: nth_rotate)
  finally show "traversal m (ps ! j) (length ps) ! t = rotate j ps ! t" .
qed

lemma count_loop_cycle:
  assumes links: "\<And>k. k < length ps \<Longrightarrow> nexts0 m (ps ! k) = ps ! ((k + 1) mod length ps)"
    and dist: "distinct ps"
    and j: "j < length ps"
    and t: "t < length ps"
  shows "count_loop m (ps ! j) (ps ! ((j + t) mod length ps)) c = Some (c + of_nat (length ps - t))"
  using t
proof (induction "length ps - t" arbitrary: t c)
  case 0
  then show ?case
    by simp
next
  case (Suc d)
  let ?n = "length ps"
  have n0: "0 < ?n"
    using j by arith
  then have cur: "(j + t) mod ?n < ?n"
    by simp
  have nxt: "nexts0 m (ps ! ((j + t) mod ?n)) = ps ! ((j + Suc t) mod ?n)"
    using links[OF cur] by (simp add: mod_Suc_eq)
  show ?case
  proof (cases "Suc t = ?n")
    case True
    then have "(j + Suc t) mod ?n = j"
      using j by simp
    then have "count_loop m (ps ! j) (ps ! ((j + t) mod ?n)) c = Some (c + 1)"
      using nxt by (subst count_loop.simps) (simp add: Let_def)
    moreover have "?n - t = 1"
      using True by simp
    ultimately show ?thesis
      by simp
  next
    case False
    then have lt: "Suc t < ?n"
      using Suc.prems by simp
    have "(j + Suc t) mod ?n \<noteq> j"
    proof
      assume e: "(j + Suc t) mod ?n = j"
      have "(j + Suc t) mod ?n = (if j + Suc t < ?n then j + Suc t else j + Suc t - ?n)"
        using j lt by (simp add: mod_if)
      with e lt show False
        by (simp split: if_splits)
    qed
    moreover have "(j + Suc t) mod ?n < ?n"
      using n0 by simp
    ultimately have "ps ! ((j + Suc t) mod ?n) \<noteq> ps ! j"
      using dist j by (simp add: nth_eq_iff_index_eq)
    then have "count_loop m (ps ! j) (ps ! ((j + t) mod ?n)) c =
                 count_loop m (ps ! j) (ps ! ((j + Suc t) mod ?n)) (c + 1)"
      using nxt by (subst count_loop.simps) (simp add: Let_def)
    also have "\<dots> = Some (c + 1 + of_nat (?n - Suc t))"
      using Suc.hyps lt by (intro Suc.hyps(1)) simp_all
    also have "c + 1 + of_nat (?n - Suc t) = c + of_nat (?n - t)"
    proof -
      have "?n - t = Suc (?n - Suc t)"
        using lt by simp
      then show ?thesis
        by simp
    qed
    finally show ?thesis .
  qed
qed

lemma count_cycle:
  assumes links: "\<And>k. k < length ps \<Longrightarrow> nexts0 m (ps ! k) = ps ! ((k + 1) mod length ps)"
    and dist: "distinct ps"
    and j: "j < length ps"
  shows "count m (ps ! j) = Some (of_nat (length ps))"
proof -
  have n0: "0 < length ps"
    using j by arith
  have "count_loop m (ps ! j) (ps ! ((j + 0) mod length ps)) 0 = Some (0 + of_nat (length ps - 0))"
    using links dist j n0 by (rule count_loop_cycle)
  then show ?thesis
    using j by (simp add: count_def)
qed

section \<open>Facts about the region builder\<close>

lemma storage_static_init_reuse:
  assumes "storage_static s = Some b"
  shows "storage_static_init pf s = Inr (s, b)"
  using assms by (simp add: storage_static_init_def)

lemma storage_static_init_create:
  assumes "storage_static s = None"
    and "posix_memalign pf (blocks s) TWO_MB (MAX_SHUFFLED_REGION_SIZE pf + TWO_MB) = (0, b)"
  shows "storage_static_init pf s =
           Inr ((do_memset (do_memset
                   (s\<lparr>blocks := (b, MAX_SHUFFLED_REGION_SIZE pf + TWO_MB) # blocks s\<rparr>)
                   (b + TWO_MB) 1 (MAX_SHUFFLED_REGION_SIZE pf))
                   (b + TWO_MB) 0 (MAX_SHUFFLED_REGION_SIZE pf))
                  \<lparr>storage_static := Some (b + TWO_MB)\<rparr>,
                b + TWO_MB)"
  using assms by (simp add: storage_static_init_def new_huge_ptr_success)

lemma storage_static_init_ok:
  assumes "storage_static s = None \<longrightarrow>
             fst (posix_memalign pf (blocks s) TWO_MB (MAX_SHUFFLED_REGION_SIZE pf + TWO_MB)) = 0"
  obtains s1 b where "storage_static_init pf s = Inr (s1, b)"
    and "storage_static s1 = Some b"
    and "storage_ptr s1 = storage_ptr s"
    and "\<And>c. storage_static s = Some c \<Longrightarrow> s1 = s \<and> b = c"
proof (cases "storage_static s")
  case (Some c)
  then show ?thesis
    by (intro that[of s c]) (simp_all add: storage_static_init_reuse)
next
  case None
  with assms obtain b
    where b: "posix_memalign pf (blocks s) TWO_MB (MAX_SHUFFLED_REGION_SIZE pf + TWO_MB) = (0, b)"
    by (cases "posix_memalign pf (blocks s) TWO_MB (MAX_SHUFFLED_REGION_SIZE pf + TWO_MB)") simp
  show ?thesis
    using None by (intro that[OF storage_static_init_create[OF None b]]) simp_all
qed

lemma line_index:
  assumes "i < sz div UB_CACHE_LINE_SIZE pf"
  shows "(line pf st i - st) div UB_CACHE_LINE_SIZE pf = i"
proof -
  let ?c = "UB_CACHE_LINE_SIZE pf"
  have "unat i < unat sz div unat ?c"
    using assms by (simp add: word_less_nat_alt unat_div)
  then have c: "0 < unat ?c"
    by (cases "unat ?c = 0") simp_all
  have "unat ((i * ?c) div ?c) = unat (i * ?c) div unat ?c"
    by (rule unat_div)
  also have "\<dots> = unat i * unat ?c div unat ?c"
    using line_offset(1)[OF assms] by simp
  also have "\<dots> = unat i"
    using c by simp
  finally have "(i * ?c) div ?c = i"
    by (simp add: word_unat_eq_iff)
  then show ?thesis
    by (simp add: line_def)
qed

text \<open>
  A call whose three assertions hold, with the arena at hand, returns the region; the memory
  it leaves holds one cycle through all the lines, in the order of the shuffled index vector
  from the position \<open>j\<close> of line 0 on.
\<close>

lemma shuffled_region_built:
  assumes le: "sz + offset \<le> MAX_SHUFFLED_REGION_SIZE pf"
    and md: "sz mod UB_CACHE_LINE_SIZE pf = 0"
    and pos: "0 < sz div UB_CACHE_LINE_SIZE pf"
    and cls: "8 \<le> UB_CACHE_LINE_SIZE pf"
    and sh: "shuffle_contract pf"
    and init: "storage_static_init pf s = Inr (s1, b)"
  obtains m j where
    "shuffled_region pf s sz offset =
       Some (Inr ((do_memset s1 (b + offset) 255 sz)\<lparr>mem := m\<rparr>,
                  \<lparr>region_size = sz, start = b + offset\<rparr>))"
    and "count m (b + offset) = Some (sz div UB_CACHE_LINE_SIZE pf)"
    and "j < unat (sz div UB_CACHE_LINE_SIZE pf)"
    and "shuffle pf 123 (map of_nat [0..<unat (sz div UB_CACHE_LINE_SIZE pf)]) ! j = 0"
    and "traversal m (b + offset) (unat (sz div UB_CACHE_LINE_SIZE pf)) =
           rotate j (map (line pf (b + offset))
                      (shuffle pf 123 (map of_nat [0..<unat (sz div UB_CACHE_LINE_SIZE pf)])))"
    and "(nexts0 m ^^ unat (sz div UB_CACHE_LINE_SIZE pf)) (b + offset) = b + offset"
proof -
  let ?sl = "sz div UB_CACHE_LINE_SIZE pf"
  let ?n = "unat ?sl"
  let ?st = "b + offset"
  let ?idx = "shuffle pf 123 (map of_nat [0..<?n])"
  let ?ps = "map (line pf ?st) ?idx"
  let ?s2 = "do_memset s1 ?st 255 sz"
  obtain m' p where ll: "link_loop pf ?st ?idx ?sl (mem ?s2) (line pf ?st (?idx ! 0)) 1 = (m', p)"
    by (cases "link_loop pf ?st ?idx ?sl (mem ?s2) (line pf ?st (?idx ! 0)) 1")
  let ?m = "setNexts m' p (line pf ?st (?idx ! 0))"
  have v: "valid_indexes ?sl ?idx"
    using sh by (rule shuffled_indexes_valid)
  then have len: "length ?idx = ?n" and set: "set ?idx = {x. x < ?sl}"
    by (simp_all add: valid_indexes_def)
  have far: "far_apart ?ps"
    using v cls by (rule valid_indexes_far_apart)
  then have dist: "distinct ?ps"
    by (rule far_apart_distinct)
  have lenps: "length ?ps = ?n"
    using len by simp
  have links: "nexts0 ?m (?ps ! k) = ?ps ! ((k + 1) mod length ?ps)" if "k < length ?ps" for k
  proof -
    have k: "k < ?n"
      using that len by simp
    have n0: "0 < ?n"
      using that len by simp
    then have "(k + 1) mod ?n < ?n"
      by simp
    then have "?ps ! ((k + 1) mod length ?ps) = line pf ?st (?idx ! ((k + 1) mod ?n))"
      using len by simp
    moreover have "?ps ! k = line pf ?st (?idx ! k)"
      using k len by simp
    moreover have "nexts0 ?m (line pf ?st (?idx ! k)) = line pf ?st (?idx ! ((k + 1) mod ?n))"
      using far len pos ll k by (rule built_links)
    ultimately show ?thesis
      by simp
  qed
  have "0 \<in> set ?idx"
    using set pos by simp
  then obtain j where j: "j < length ?idx" and j0: "?idx ! j = 0"
    by (auto simp: in_set_conv_nth)
  have first: "?ps ! j = ?st"
    using j j0 by (simp add: line_def)
  have jps: "j < length ?ps"
    using j by simp
  have "count ?m (?ps ! j) = Some (of_nat (length ?ps))"
    using links dist jps by (rule count_cycle)
  then have cnt: "count ?m ?st = Some ?sl"
    using first lenps by simp
  have "traversal ?m (?ps ! j) (length ?ps) = rotate j ?ps"
    using links jps by (rule cycle_traversal)
  then have trav: "traversal ?m ?st ?n = rotate j ?ps"
    using first lenps by simp
  have "(nexts0 ?m ^^ length ?ps) (?ps ! j) = ?ps ! ((j + length ?ps) mod length ?ps)"
    using links jps by (rule cycle_funpow)
  then have closed: "(nexts0 ?m ^^ ?n) ?st = ?st"
    using first lenps jps by simp
  have "shuffled_region pf s sz offset =
          Some (Inr (?s2\<lparr>mem := ?m\<rparr>, \<lparr>region_size = sz, start = ?st\<rparr>))"
    using le md pos init ll cnt by (simp add: shuffled_region_def Let_def)
  then show ?thesis
    using cnt j j0 trav closed len by (intro that[of ?m j]) simp_all
qed

section \<open>More facts about the concrete platform\<close>

lemma test_platform_fields:
  "UB_CACHE_LINE_SIZE test_platform = 64"
  "MAX_SHUFFLED_REGION_SIZE test_platform = 419430400"
  "posix_memalign test_platform = test_posix_memalign"
  "shuffle test_platform seed xs = rotate (unat seed) (rev xs)"
  by (simp_all add: test_platform_def)

lemma mset_rotate_rev: "mset (rotate n (rev xs)) = mset xs"
proof -
  have one: "mset (rotate1 ys) = mset ys" for ys :: "'a list"
    by (cases ys) simp_all
  have "mset (rotate n ys) = mset ys" for ys :: "'a list"
    by (induction n) (simp_all add: one)
  then show ?thesis
    by simp
qed

lemma test_platform_shuffle: "shuffle_contract test_platform"
  by (simp add: shuffle_contract_def test_platform_fields mset_rotate_rev)

lemma test_large_block:
  "posix_memalign test_platform [] TWO_MB (MAX_SHUFFLED_REGION_SIZE test_platform + TWO_MB) =
     (0, 1073741824)"
  by (simp add: test_platform_fields test_posix_memalign_def TWO_MB_def)

lemma test_large_arena_alloc:
  "storage_static initial_state = None \<longrightarrow>
     fst (posix_memalign test_platform (blocks initial_state) TWO_MB
            (MAX_SHUFFLED_REGION_SIZE test_platform + TWO_MB)) = 0"
  by (simp add: initial_state_def test_large_block)

section \<open>The region builder: claims\<close>

lemma checks_from_preconditions:
  fixes sz offset cls mx :: size_t
  assumes sum: "unat sz + unat offset \<le> unat mx"
    and md: "sz mod cls = 0" and pos: "0 < sz"
  shows "sz + offset \<le> mx" and "0 < sz div cls"
proof -
  have "unat mx < 2 ^ LENGTH(64)"
    by (rule unsigned_less)
  with sum have "unat sz + unat offset < 2 ^ LENGTH(64)"
    by simp
  then have "unat (sz + offset) = unat sz + unat offset"
    by (simp only: unat_add_lem)
  with sum show "sz + offset \<le> mx"
    by (simp add: word_le_nat_alt)
  have "unat sz mod unat cls = 0"
    using md by (simp add: word_unat_eq_iff unat_mod)
  moreover have "0 < unat sz"
    using pos by (simp add: word_less_nat_alt)
  ultimately have "0 < unat sz div unat cls"
    by (metis div_mult_mod_eq add.right_neutral mult_is_0 neq0_conv)
  then show "0 < sz div cls"
    by (simp add: word_less_nat_alt unat_div)
qed

text \<open>
  C1. For a size that is a positive multiple of the line size, with size plus offset (as
  numbers) within \<open>MAX_SHUFFLED_REGION_SIZE\<close>, \<open>shuffled_region\<close> returns a region whose first
  line is the start of a single cycle through all its lines: \<open>count\<close> from the first line
  returns the number of lines; the lines reached in zero to \<open>size_lines - 1\<close> steps are
  pairwise distinct and are exactly the lines of the region; and step \<open>size_lines\<close> is back
  at the first line. The first line is \<open>offset\<close> bytes into the large arena. This is under the contract of \<open>std::shuffle\<close>, for lines that hold at
  least one pointer, and with a successful allocation where the arena is created by this
  call.
\<close>

theorem shuffled_region_single_cycle:
  assumes "shuffle_contract pf" and "8 \<le> UB_CACHE_LINE_SIZE pf"
    and "unat sz + unat offset \<le> unat (MAX_SHUFFLED_REGION_SIZE pf)"
    and "sz mod UB_CACHE_LINE_SIZE pf = 0" and "0 < sz"
    and "storage_static s = None \<longrightarrow>
           fst (posix_memalign pf (blocks s) TWO_MB (MAX_SHUFFLED_REGION_SIZE pf + TWO_MB)) = 0"
  shows "\<exists>s' r b. shuffled_region pf s sz offset = Some (Inr (s', r)) \<and>
           region_size r = sz \<and>
           storage_static s' = Some b \<and> start r = b + offset \<and>
           count (mem s') (start r) = Some (sz div UB_CACHE_LINE_SIZE pf) \<and>
           distinct (traversal (mem s') (start r) (unat (sz div UB_CACHE_LINE_SIZE pf))) \<and>
           set (traversal (mem s') (start r) (unat (sz div UB_CACHE_LINE_SIZE pf))) =
             line pf (start r) ` {i. i < sz div UB_CACHE_LINE_SIZE pf} \<and>
           (nexts0 (mem s') ^^ unat (sz div UB_CACHE_LINE_SIZE pf)) (start r) = start r"
proof -
  let ?sl = "sz div UB_CACHE_LINE_SIZE pf"
  let ?idx = "shuffle pf 123 (map of_nat [0..<unat ?sl])"
  from assms(6) obtain s1 b where init: "storage_static_init pf s = Inr (s1, b)"
    and stat: "storage_static s1 = Some b"
    by (rule storage_static_init_ok)
  have le: "sz + offset \<le> MAX_SHUFFLED_REGION_SIZE pf" and pos: "0 < ?sl"
    using assms(3,4,5) by (rule checks_from_preconditions)+
  from le assms(4) pos assms(2,1) init obtain m j
    where res: "shuffled_region pf s sz offset =
       Some (Inr ((do_memset s1 (b + offset) 255 sz)\<lparr>mem := m\<rparr>,
                  \<lparr>region_size = sz, start = b + offset\<rparr>))"
      and cnt: "count m (b + offset) = Some ?sl"
      and trav: "traversal m (b + offset) (unat ?sl) = rotate j (map (line pf (b + offset)) ?idx)"
      and closed: "(nexts0 m ^^ unat ?sl) (b + offset) = b + offset"
    by (rule shuffled_region_built)
  have v: "valid_indexes ?sl ?idx"
    using assms(1) by (rule shuffled_indexes_valid)
  then have "far_apart (map (line pf (b + offset)) ?idx)"
    using assms(2) by (rule valid_indexes_far_apart)
  then have "distinct (map (line pf (b + offset)) ?idx)"
    by (rule far_apart_distinct)
  then have "distinct (traversal m (b + offset) (unat ?sl))"
    by (simp add: trav)
  moreover have "set (traversal m (b + offset) (unat ?sl)) = line pf (b + offset) ` {i. i < ?sl}"
    using v by (simp add: trav valid_indexes_def)
  ultimately show ?thesis
    using res cnt closed stat by simp
qed

theorem shuffled_region_single_cycle_witness:
  "\<exists>s' r b. shuffled_region test_platform initial_state 6400 0 = Some (Inr (s', r)) \<and>
     region_size r = 6400 \<and>
     storage_static s' = Some b \<and> start r = b + 0 \<and>
     count (mem s') (start r) = Some 100 \<and>
     distinct (traversal (mem s') (start r) 100) \<and>
     set (traversal (mem s') (start r) 100) = line test_platform (start r) ` {i. i < 100} \<and>
     (nexts0 (mem s') ^^ 100) (start r) = start r"
proof -
  have "(6400 :: size_t) div UB_CACHE_LINE_SIZE test_platform = 100"
    by (simp add: test_platform_fields)
  moreover have "8 \<le> UB_CACHE_LINE_SIZE test_platform"
    and "unat (6400 :: size_t) + unat (0 :: size_t) \<le> unat (MAX_SHUFFLED_REGION_SIZE test_platform)"
    and "(6400 :: size_t) mod UB_CACHE_LINE_SIZE test_platform = 0"
    and "(0 :: size_t) < 6400"
    by (simp_all add: test_platform_fields)
  ultimately show ?thesis
    using shuffled_region_single_cycle[OF test_platform_shuffle _ _ _ _ test_large_arena_alloc,
        of 6400 0]
    by simp
qed

text \<open>
  C5. The order in which a built region chains its lines, as line indices, is the same for
  any two calls with the same size and offset, whatever the two states (a later call of the
  same run, or a call of another run with the arena elsewhere): it is the vector
  \<open>0, 1, ..\<close> shuffled by an engine seeded with 123, read from line 0 on.
\<close>

theorem shuffled_region_deterministic:
  assumes "shuffle_contract pf" and "8 \<le> UB_CACHE_LINE_SIZE pf"
    and "unat sz + unat offset \<le> unat (MAX_SHUFFLED_REGION_SIZE pf)"
    and "sz mod UB_CACHE_LINE_SIZE pf = 0" and "0 < sz"
    and "storage_static s = None \<longrightarrow>
           fst (posix_memalign pf (blocks s) TWO_MB (MAX_SHUFFLED_REGION_SIZE pf + TWO_MB)) = 0"
    and "storage_static t = None \<longrightarrow>
           fst (posix_memalign pf (blocks t) TWO_MB (MAX_SHUFFLED_REGION_SIZE pf + TWO_MB)) = 0"
  shows "\<exists>s' r t' q j.
           shuffled_region pf s sz offset = Some (Inr (s', r)) \<and>
           shuffled_region pf t sz offset = Some (Inr (t', q)) \<and>
           line_order pf (mem s') (start r) (unat (sz div UB_CACHE_LINE_SIZE pf)) =
             line_order pf (mem t') (start q) (unat (sz div UB_CACHE_LINE_SIZE pf)) \<and>
           line_order pf (mem s') (start r) (unat (sz div UB_CACHE_LINE_SIZE pf)) =
             rotate j (shuffle pf 123 (map of_nat [0..<unat (sz div UB_CACHE_LINE_SIZE pf)])) \<and>
           shuffle pf 123 (map of_nat [0..<unat (sz div UB_CACHE_LINE_SIZE pf)]) ! j = 0"
proof -
  let ?c = "UB_CACHE_LINE_SIZE pf"
  let ?sl = "sz div ?c"
  let ?idx = "shuffle pf 123 (map of_nat [0..<unat ?sl])"
  have le: "sz + offset \<le> MAX_SHUFFLED_REGION_SIZE pf" and pos: "0 < ?sl"
    using assms(3,4,5) by (rule checks_from_preconditions)+
  have v: "valid_indexes ?sl ?idx"
    using assms(1) by (rule shuffled_indexes_valid)
  have order: "map (\<lambda>p. (p - st) div ?c) (rotate k (map (line pf st) ?idx)) = rotate k ?idx"
    for st k
  proof -
    have "map (\<lambda>p. (p - st) div ?c) (map (line pf st) ?idx) = map (\<lambda>i. i) ?idx"
      unfolding map_map
    proof (rule map_cong[OF refl])
      fix i
      assume "i \<in> set ?idx"
      then have "i < ?sl"
        using v by (simp add: valid_indexes_def)
      then show "((\<lambda>p. (p - st) div ?c) \<circ> line pf st) i = i"
        by (simp add: line_index)
    qed
    then have e: "map (\<lambda>p. (p - st) div ?c) (map (line pf st) ?idx) = ?idx"
      by simp
    have "map (\<lambda>p. (p - st) div ?c) (rotate k (map (line pf st) ?idx)) =
            rotate k (map (\<lambda>p. (p - st) div ?c) (map (line pf st) ?idx))"
      by (simp only: rotate_map)
    then show ?thesis
      by (simp only: e)
  qed
  from assms(6) obtain s1 b where init1: "storage_static_init pf s = Inr (s1, b)"
    by (rule storage_static_init_ok)
  from assms(7) obtain t1 c where init2: "storage_static_init pf t = Inr (t1, c)"
    by (rule storage_static_init_ok)
  from le assms(4) pos assms(2,1) init1 obtain m1 j1
    where res1: "shuffled_region pf s sz offset =
       Some (Inr ((do_memset s1 (b + offset) 255 sz)\<lparr>mem := m1\<rparr>,
                  \<lparr>region_size = sz, start = b + offset\<rparr>))"
      and j1: "j1 < unat ?sl" "?idx ! j1 = 0"
      and trav1: "traversal m1 (b + offset) (unat ?sl) = rotate j1 (map (line pf (b + offset)) ?idx)"
    by (rule shuffled_region_built)
  from le assms(4) pos assms(2,1) init2 obtain m2 j2
    where res2: "shuffled_region pf t sz offset =
       Some (Inr ((do_memset t1 (c + offset) 255 sz)\<lparr>mem := m2\<rparr>,
                  \<lparr>region_size = sz, start = c + offset\<rparr>))"
      and j2: "j2 < unat ?sl" "?idx ! j2 = 0"
      and trav2: "traversal m2 (c + offset) (unat ?sl) = rotate j2 (map (line pf (c + offset)) ?idx)"
    by (rule shuffled_region_built)
  have "distinct ?idx" and "j1 < length ?idx" and "j2 < length ?idx"
    using v j1 j2 by (simp_all add: valid_indexes_def)
  moreover have "?idx ! j1 = ?idx ! j2"
    using j1 j2 by simp
  ultimately have "j1 = j2"
    by (simp only: nth_eq_iff_index_eq)
  then have "line_order pf m1 (b + offset) (unat ?sl) = rotate j1 ?idx"
    and "line_order pf m2 (c + offset) (unat ?sl) = rotate j1 ?idx"
    by (simp_all add: line_order_def trav1 trav2 order)
  then have "shuffled_region pf s sz offset =
               Some (Inr ((do_memset s1 (b + offset) 255 sz)\<lparr>mem := m1\<rparr>,
                          \<lparr>region_size = sz, start = b + offset\<rparr>)) \<and>
             shuffled_region pf t sz offset =
               Some (Inr ((do_memset t1 (c + offset) 255 sz)\<lparr>mem := m2\<rparr>,
                          \<lparr>region_size = sz, start = c + offset\<rparr>)) \<and>
             line_order pf (mem ((do_memset s1 (b + offset) 255 sz)\<lparr>mem := m1\<rparr>))
                 (start \<lparr>region_size = sz, start = b + offset\<rparr>) (unat ?sl) =
               line_order pf (mem ((do_memset t1 (c + offset) 255 sz)\<lparr>mem := m2\<rparr>))
                 (start \<lparr>region_size = sz, start = c + offset\<rparr>) (unat ?sl) \<and>
             line_order pf (mem ((do_memset s1 (b + offset) 255 sz)\<lparr>mem := m1\<rparr>))
                 (start \<lparr>region_size = sz, start = b + offset\<rparr>) (unat ?sl) =
               rotate j1 ?idx \<and>
             ?idx ! j1 = 0"
    using res1 res2 j1(2) by simp
  then show ?thesis
    by blast
qed

theorem shuffled_region_deterministic_witness:
  "\<exists>s' r t' q j.
     shuffled_region test_platform initial_state 640 128 = Some (Inr (s', r)) \<and>
     shuffled_region test_platform
       (initial_state\<lparr>storage_static := Some 8388608, mem := (\<lambda>_. 7)\<rparr>) 640 128 =
       Some (Inr (t', q)) \<and>
     line_order test_platform (mem s') (start r) 10 = line_order test_platform (mem t') (start q) 10 \<and>
     line_order test_platform (mem s') (start r) 10 =
       rotate j (shuffle test_platform 123 (map of_nat [0..<10])) \<and>
     shuffle test_platform 123 (map of_nat [0..<10]) ! j = 0"
proof -
  have "(640 :: size_t) div UB_CACHE_LINE_SIZE test_platform = 10"
    by (simp add: test_platform_fields)
  moreover have "8 \<le> UB_CACHE_LINE_SIZE test_platform"
    and "unat (640 :: size_t) + unat (128 :: size_t) \<le> unat (MAX_SHUFFLED_REGION_SIZE test_platform)"
    and "(640 :: size_t) mod UB_CACHE_LINE_SIZE test_platform = 0"
    and "(0 :: size_t) < 640"
    by (simp_all add: test_platform_fields)
  moreover have "storage_static (initial_state\<lparr>storage_static := Some 8388608, mem := (\<lambda>_. 7)\<rparr>) = None
      \<longrightarrow> fst (posix_memalign test_platform
                 (blocks (initial_state\<lparr>storage_static := Some 8388608, mem := (\<lambda>_. 7)\<rparr>))
                 TWO_MB (MAX_SHUFFLED_REGION_SIZE test_platform + TWO_MB)) = 0"
    by simp
  ultimately show ?thesis
    using shuffled_region_deterministic[OF test_platform_shuffle _ _ _ _ test_large_arena_alloc,
        of 640 128 "initial_state\<lparr>storage_static := Some 8388608, mem := (\<lambda>_. 7)\<rparr>"]
    by simp
qed

text \<open>
  C10. A size of 0 passes the first two assertions when the offset is within
  \<open>MAX_SHUFFLED_REGION_SIZE\<close>, and fails the third: the number of lines is not positive.
\<close>

theorem shuffled_region_size_zero_asserts:
  assumes "offset \<le> MAX_SHUFFLED_REGION_SIZE pf"
  shows "shuffled_region pf s 0 offset = Some (Inl (AssertFailed ''size_lines > 0''))"
  using assms by (simp add: shuffled_region_def)

theorem shuffled_region_size_zero_asserts_witness:
  "shuffled_region test_platform initial_state 0 64 = Some (Inl (AssertFailed ''size_lines > 0''))"
  using shuffled_region_size_zero_asserts[of 64 test_platform initial_state]
  by (simp add: test_platform_fields)

section \<open>The huge-page allocator: claim\<close>

lemma bytes_from_huge_ptr:
  fixes b sz :: size_t
  assumes "unat sz + unat TWO_MB < 2 ^ 64"
  shows "bytes_from ((b, sz + TWO_MB) # bs) (b + TWO_MB) = unat sz"
proof -
  have s: "unat (sz + TWO_MB) = unat sz + unat TWO_MB"
    using assms by (simp add: unat_add_lem[THEN iffD1])
  then have "TWO_MB \<le> sz + TWO_MB"
    by (simp add: word_le_nat_alt)
  then show ?thesis
    using s by simp
qed

text \<open>
  C4, with the size of the block put right. \<open>new_huge_ptr\<close> returns a pointer that is a multiple of 2 MB and not null. It
  lies \<open>TWO_MB\<close> bytes into the block of \<open>size + TWO_MB\<close> bytes that \<open>posix_memalign\<close>
  returned, so that exactly \<open>size\<close> bytes of the block follow it (the source's own comment
  promises a region of at least \<open>size\<close>). Before returning it makes two calls of \<open>memset\<close>
  on the \<open>size\<close> bytes from the pointer on, first with the byte 1, then with 0; afterwards
  every byte of that range is 0 and every other byte of memory is as before. This is under
  the contract of \<open>posix_memalign\<close>, for a successful allocation, and for a size for which
  \<open>size + TWO_MB\<close> does not wrap around.
\<close>

theorem new_huge_ptr_aligned_touched_zeroed:
  assumes "posix_memalign_contract pf"
    and "posix_memalign pf (blocks s) TWO_MB (sz + TWO_MB) = (0, b)"
    and "unat sz + unat TWO_MB < 2 ^ 64"
  shows "\<exists>s' p. new_huge_ptr pf s sz = Inr (s', p) \<and>
           unat p mod unat TWO_MB = 0 \<and> p \<noteq> 0 \<and>
           p = b + TWO_MB \<and> blocks s' = (b, sz + TWO_MB) # blocks s \<and>
           bytes_from (blocks s') p = unat sz \<and>
           memsets s' = memsets s @ [(p, 1, sz), (p, 0, sz)] \<and>
           (\<forall>a. a - p < sz \<longrightarrow> mem s' a = 0) \<and>
           (\<forall>a. \<not> a - p < sz \<longrightarrow> mem s' a = mem s a) \<and>
           storage_ptr s' = storage_ptr s \<and> storage_static s' = storage_static s"
proof -
  have c: "unat b mod unat TWO_MB = 0" "unat b + unat (sz + TWO_MB) < 2 ^ 64"
    using assms(1,2) by (auto simp: posix_memalign_contract_def)
  have "unat (b + TWO_MB) mod unat TWO_MB = 0"
    using c assms(3) by (rule huge_ptr_facts(2))
  moreover have "b + TWO_MB \<noteq> 0"
    using c assms(3) by (rule huge_ptr_facts(4))
  moreover have "bytes_from ((b, sz + TWO_MB) # blocks s) (b + TWO_MB) = unat sz"
    using assms(3) by (rule bytes_from_huge_ptr)
  ultimately show ?thesis
    by (simp add: new_huge_ptr_success[OF assms(2)] memset_def)
qed

theorem new_huge_ptr_aligned_touched_zeroed_witness:
  "\<exists>s' p. new_huge_ptr test_platform initial_state 4096 = Inr (s', p) \<and>
     unat p mod unat TWO_MB = 0 \<and> p \<noteq> 0 \<and>
     p = 1073741824 + TWO_MB \<and> blocks s' = (1073741824, 4096 + TWO_MB) # blocks initial_state \<and>
     bytes_from (blocks s') p = unat (4096 :: size_t) \<and>
     memsets s' = memsets initial_state @ [(p, 1, 4096), (p, 0, 4096)] \<and>
     (\<forall>a. a - p < 4096 \<longrightarrow> mem s' a = 0) \<and>
     (\<forall>a. \<not> a - p < 4096 \<longrightarrow> mem s' a = mem initial_state a) \<and>
     storage_ptr s' = storage_ptr initial_state \<and> storage_static s' = storage_static initial_state"
proof (rule new_huge_ptr_aligned_touched_zeroed)
  show "posix_memalign_contract test_platform"
    by (rule test_platform_contract)
  show "posix_memalign test_platform (blocks initial_state) TWO_MB (4096 + TWO_MB) = (0, 1073741824)"
    by (simp add: test_platform_fields test_posix_memalign_def TWO_MB_def initial_state_def)
  show "unat (4096 :: size_t) + unat TWO_MB < 2 ^ 64"
    by (simp add: TWO_MB_def)
qed

text \<open>
  C4 with a block of at least \<open>size + TWO_MB\<close> bytes at the pointer does not hold: for a
  request of 4096 bytes the pointer returned has 4096 bytes of its block after it, not
  \<open>4096 + TWO_MB\<close>.
\<close>

theorem new_huge_ptr_block_counterexample:
  "map_sum id (case_prod (bytes_from \<circ> blocks)) (new_huge_ptr test_platform initial_state 4096) =
     Inr 4096 \<and>
   \<not> unat (4096 + TWO_MB) \<le> (4096 :: nat)"
proof -
  have "posix_memalign test_platform (blocks initial_state) TWO_MB (4096 + TWO_MB) = (0, 1073741824)"
    by (simp add: test_platform_fields test_posix_memalign_def TWO_MB_def initial_state_def)
  then have "new_huge_ptr test_platform initial_state 4096 =
      Inr (do_memset (do_memset (initial_state\<lparr>blocks := (1073741824, 4096 + TWO_MB) # blocks initial_state\<rparr>)
             (1073741824 + TWO_MB) 1 4096) (1073741824 + TWO_MB) 0 4096, 1073741824 + TWO_MB)"
    by (rule new_huge_ptr_success)
  moreover have "bytes_from ((1073741824, 4096 + TWO_MB) # blocks initial_state) (1073741824 + TWO_MB) =
      unat (4096 :: size_t)"
    by (rule bytes_from_huge_ptr) (simp add: TWO_MB_def)
  ultimately show ?thesis
    by (simp add: TWO_MB_def)
qed

section \<open>Configuration errors: claim\<close>






section \<open>The two arenas: claim\<close>

lemma align_null: "align a required_size 0 space = Inl (AssertFailed ''r'')"
proof -
  have "(a - 1) AND - a = 0"
    by (simp add: minus_eq_not_minus_1)
  then show ?thesis
    by (simp add: align_def Let_def)
qed

lemma new_huge_ptr_result:
  assumes "new_huge_ptr pf s sz = Inr (s', p)"
  obtains b where "blocks s' = (b, sz + TWO_MB) # blocks s" and "p = b + TWO_MB"
    and "storage_ptr s' = storage_ptr s" and "storage_static s' = storage_static s"
proof (cases "posix_memalign pf (blocks s) TWO_MB (sz + TWO_MB)")
  case (Pair result b)
  with assms have "result = 0"
    by (auto simp: new_huge_ptr_def Let_def split: if_splits)
  with Pair assms show ?thesis
    by (intro that[of b]) (auto simp: new_huge_ptr_success)
qed

text \<open>What a call of \<open>aligned_ptr\<close> that returns has done to the state.\<close>

lemma aligned_ptr_result:
  assumes "aligned_ptr pf s a required_size = Inr (s', p)"
  shows "storage_ptr s' \<noteq> 0"
    and "storage_static s' = storage_static s"
    and "align a required_size (storage_ptr s') STORAGE_SIZE = Inr p"
    and "storage_ptr s \<noteq> 0 \<Longrightarrow> s' = s"
    and "storage_ptr s = 0 \<Longrightarrow>
           \<exists>b. blocks s' = (b, STORAGE_SIZE + TWO_MB) # blocks s \<and> storage_ptr s' = b + TWO_MB"
proof -
  have ok: "required_size \<le> STORAGE_SIZE" "is_pow2 a" "a \<le> TWO_MB"
    using assms by (auto simp: aligned_ptr_def split: if_splits)
  show al: "align a required_size (storage_ptr s') STORAGE_SIZE = Inr p"
    and st: "storage_static s' = storage_static s"
    and same: "storage_ptr s \<noteq> 0 \<Longrightarrow> s' = s"
    and new: "storage_ptr s = 0 \<Longrightarrow>
           \<exists>b. blocks s' = (b, STORAGE_SIZE + TWO_MB) # blocks s \<and> storage_ptr s' = b + TWO_MB"
  proof -
    show "storage_ptr s \<noteq> 0 \<Longrightarrow> s' = s"
      using assms ok by (auto simp: aligned_ptr_def split: sum.splits)
    show "align a required_size (storage_ptr s') STORAGE_SIZE = Inr p"
      using assms ok by (auto simp: aligned_ptr_def split: sum.splits if_splits prod.splits)
    show "storage_static s' = storage_static s"
      using assms ok
      by (auto simp: aligned_ptr_def split: sum.splits if_splits prod.splits
          elim!: new_huge_ptr_result)
    show "storage_ptr s = 0 \<Longrightarrow>
           \<exists>b. blocks s' = (b, STORAGE_SIZE + TWO_MB) # blocks s \<and> storage_ptr s' = b + TWO_MB"
      using assms ok
      by (auto simp: aligned_ptr_def split: sum.splits if_splits prod.splits
          elim!: new_huge_ptr_result)
  qed
  show "storage_ptr s' \<noteq> 0"
  proof
    assume "storage_ptr s' = 0"
    with al show False
      by (simp add: align_null)
  qed
qed

lemma storage_static_init_result:
  assumes "storage_static_init pf s = Inr (s1, b)"
  shows "storage_static s1 = Some b"
    and "storage_ptr s1 = storage_ptr s"
    and "\<And>c. storage_static s = Some c \<Longrightarrow> s1 = s \<and> b = c"
    and "storage_static s = None \<Longrightarrow>
           \<exists>b0. blocks s1 = (b0, MAX_SHUFFLED_REGION_SIZE pf + TWO_MB) # blocks s \<and> b = b0 + TWO_MB"
  using assms
  by (auto simp: storage_static_init_def split: option.splits sum.splits prod.splits
      elim!: new_huge_ptr_result)

text \<open>What a call of \<open>shuffled_region\<close> that returns has done to the state.\<close>

lemma shuffled_region_result:
  assumes "shuffled_region pf s sz offset = Some (Inr (s', r))"
  obtains s1 b m where "storage_static_init pf s = Inr (s1, b)"
    and "s' = (do_memset s1 (b + offset) 255 sz)\<lparr>mem := m\<rparr>"
    and "r = \<lparr>region_size = sz, start = b + offset\<rparr>"
  using assms
  by (auto simp: shuffled_region_def Let_def
      split: if_splits sum.splits prod.splits option.splits)

text \<open>
  C8. Each arena is created at most once and then reused. In every state that the three
  functions can reach from the initial one, the blocks obtained from \<open>posix_memalign\<close> are
  exactly one for each arena pointer that is set (\<open>arenas_ok\<close>). A call of \<open>aligned_ptr\<close> or
  \<open>misaligned_ptr\<close> that returns leaves \<open>storage_ptr\<close> set; where it was set before, the call
  changes nothing in the state, allocates nothing and computes its pointer from that same
  \<open>storage_ptr\<close>; where it was null, the call allocates one block and sets it. A call of
  \<open>shuffled_region\<close> that returns leaves the static \<open>storage_\<close> set and the region \<open>offset\<close>
  bytes into it; where it was set before, it keeps its value and no block is allocated; where
  it was not, one block is allocated. Neither function touches the other's arena pointer.
\<close>

theorem arenas_created_once:
  "arenas_ok initial_state \<and>
   (arenas_ok s \<and> aligned_ptr pf s a required_size = Inr (s', p) \<longrightarrow>
      arenas_ok s' \<and> storage_ptr s' \<noteq> 0 \<and> storage_static s' = storage_static s \<and>
      align a required_size (storage_ptr s') STORAGE_SIZE = Inr p \<and>
      (storage_ptr s \<noteq> 0 \<longrightarrow> s' = s) \<and>
      (storage_ptr s = 0 \<longrightarrow>
         (\<exists>b. blocks s' = (b, STORAGE_SIZE + TWO_MB) # blocks s \<and> storage_ptr s' = b + TWO_MB))) \<and>
   (arenas_ok s \<and> misaligned_ptr pf s a required_size k = Inr (s', p) \<longrightarrow>
      arenas_ok s' \<and> storage_ptr s' \<noteq> 0 \<and> storage_static s' = storage_static s \<and>
      align a required_size (storage_ptr s') STORAGE_SIZE = Inr (p - k) \<and>
      (storage_ptr s \<noteq> 0 \<longrightarrow> s' = s) \<and>
      (storage_ptr s = 0 \<longrightarrow>
         (\<exists>b. blocks s' = (b, STORAGE_SIZE + TWO_MB) # blocks s \<and> storage_ptr s' = b + TWO_MB))) \<and>
   (arenas_ok s \<and> shuffled_region pf s sz offset = Some (Inr (t', r)) \<longrightarrow>
      arenas_ok t' \<and> storage_ptr t' = storage_ptr s \<and>
      (\<exists>c. storage_static t' = Some c \<and> start r = c + offset \<and>
         (storage_static s \<noteq> None \<longrightarrow> storage_static s = Some c \<and> blocks t' = blocks s) \<and>
         (storage_static s = None \<longrightarrow>
            (\<exists>b. blocks t' = (b, MAX_SHUFFLED_REGION_SIZE pf + TWO_MB) # blocks s \<and>
                 c = b + TWO_MB))))"
proof (intro conjI impI)
  show "arenas_ok initial_state"
    by (simp add: arenas_ok_def initial_state_def)
next
  assume h: "arenas_ok s \<and> aligned_ptr pf s a required_size = Inr (s', p)"
  then have r: "aligned_ptr pf s a required_size = Inr (s', p)"
    by simp
  note f = aligned_ptr_result[OF r]
  show "storage_ptr s' \<noteq> 0" and "storage_static s' = storage_static s"
    and "align a required_size (storage_ptr s') STORAGE_SIZE = Inr p"
    using f by simp_all
  show "s' = s" if "storage_ptr s \<noteq> 0"
    using f(4) that by simp
  show "\<exists>b. blocks s' = (b, STORAGE_SIZE + TWO_MB) # blocks s \<and> storage_ptr s' = b + TWO_MB"
    if "storage_ptr s = 0"
    using f(5) that by simp
  show "arenas_ok s'"
  proof (cases "storage_ptr s = 0")
    case True
    with f(1,2,5) h show ?thesis
      by (auto simp: arenas_ok_def)
  next
    case False
    with f(4) h show ?thesis
      by simp
  qed
next
  assume h: "arenas_ok s \<and> misaligned_ptr pf s a required_size k = Inr (s', p)"
  then obtain q where r: "aligned_ptr pf s a required_size = Inr (s', q)" and p: "p = q + k"
    by (auto simp: misaligned_ptr_def split: sum.splits)
  note f = aligned_ptr_result[OF r]
  show "storage_ptr s' \<noteq> 0" and "storage_static s' = storage_static s"
    and "align a required_size (storage_ptr s') STORAGE_SIZE = Inr (p - k)"
    using f p by simp_all
  show "s' = s" if "storage_ptr s \<noteq> 0"
    using f(4) that by simp
  show "\<exists>b. blocks s' = (b, STORAGE_SIZE + TWO_MB) # blocks s \<and> storage_ptr s' = b + TWO_MB"
    if "storage_ptr s = 0"
    using f(5) that by simp
  show "arenas_ok s'"
  proof (cases "storage_ptr s = 0")
    case True
    with f(1,2,5) h show ?thesis
      by (auto simp: arenas_ok_def)
  next
    case False
    with f(4) h show ?thesis
      by simp
  qed
next
  assume h: "arenas_ok s \<and> shuffled_region pf s sz offset = Some (Inr (t', r))"
  then obtain s1 b m where init: "storage_static_init pf s = Inr (s1, b)"
    and t': "t' = (do_memset s1 (b + offset) 255 sz)\<lparr>mem := m\<rparr>"
    and r: "r = \<lparr>region_size = sz, start = b + offset\<rparr>"
    by (auto elim: shuffled_region_result)
  note f = storage_static_init_result[OF init]
  show "storage_ptr t' = storage_ptr s"
    using f(2) t' by simp
  show "\<exists>c. storage_static t' = Some c \<and> start r = c + offset \<and>
         (storage_static s \<noteq> None \<longrightarrow> storage_static s = Some c \<and> blocks t' = blocks s) \<and>
         (storage_static s = None \<longrightarrow>
            (\<exists>b. blocks t' = (b, MAX_SHUFFLED_REGION_SIZE pf + TWO_MB) # blocks s \<and>
                 c = b + TWO_MB))"
  proof (rule exI[of _ b], cases "storage_static s")
    case None
    then show "storage_static t' = Some b \<and> start r = b + offset \<and>
         (storage_static s \<noteq> None \<longrightarrow> storage_static s = Some b \<and> blocks t' = blocks s) \<and>
         (storage_static s = None \<longrightarrow>
            (\<exists>b0. blocks t' = (b0, MAX_SHUFFLED_REGION_SIZE pf + TWO_MB) # blocks s \<and>
                 b = b0 + TWO_MB))"
      using f(1,4) t' r by simp
  next
    case (Some c)
    then show "storage_static t' = Some b \<and> start r = b + offset \<and>
         (storage_static s \<noteq> None \<longrightarrow> storage_static s = Some b \<and> blocks t' = blocks s) \<and>
         (storage_static s = None \<longrightarrow>
            (\<exists>b0. blocks t' = (b0, MAX_SHUFFLED_REGION_SIZE pf + TWO_MB) # blocks s \<and>
                 b = b0 + TWO_MB))"
      using f(1,3) t' r by simp
  qed
  show "arenas_ok t'"
  proof (cases "storage_static s")
    case None
    with f(1,2,4) h t' show ?thesis
      by (auto simp: arenas_ok_def)
  next
    case (Some c)
    with f(3) h t' show ?thesis
      by (auto simp: arenas_ok_def)
  qed
qed

theorem arenas_created_once_witness:
  "\<exists>s1 p t1 r c.
     arenas_ok initial_state \<and>
     aligned_ptr test_platform initial_state 64 128 = Inr (s1, p) \<and>
     misaligned_ptr test_platform initial_state 64 128 0 = Inr (s1, p) \<and>
     arenas_ok s1 \<and> storage_ptr s1 \<noteq> 0 \<and> storage_static s1 = storage_static initial_state \<and>
     length (blocks s1) = 1 \<and>
     aligned_ptr test_platform s1 4096 64 = Inr (s1, p) \<and>
     misaligned_ptr test_platform s1 4096 64 5 = Inr (s1, p + 5) \<and>
     shuffled_region test_platform initial_state 640 0 = Some (Inr (t1, r)) \<and>
     arenas_ok t1 \<and> storage_ptr t1 = storage_ptr initial_state \<and>
     storage_static t1 = Some c \<and> start r = c + 0 \<and> length (blocks t1) = 1"
proof -
  have a64: "(64 :: size_t) \<le> TWO_MB" and a4096: "(4096 :: size_t) \<le> TWO_MB"
    by (simp_all add: TWO_MB_def)
  have s128: "(128 :: size_t) \<le> STORAGE_SIZE" and s64: "(64 :: size_t) \<le> STORAGE_SIZE"
    by (simp_all add: STORAGE_SIZE_def)
  have alloc: "storage_ptr initial_state = 0 \<longrightarrow>
      fst (posix_memalign test_platform (blocks initial_state) TWO_MB (STORAGE_SIZE + TWO_MB)) = 0"
    by (simp add: initial_state_def test_first_block)
  from test_platform_contract initial_state_small_arena_ok is_pow2_64 a64 s128 alloc
  obtain s1 where c1: "aligned_ptr test_platform initial_state 64 128 = Inr (s1, storage_ptr s1)"
    and nz: "storage_ptr s1 \<noteq> 0" and ok: "small_arena_ok s1"
    by (rule aligned_ptr_valid)
  from ok nz have al: "unat (storage_ptr s1) mod unat TWO_MB = 0"
    by (simp add: small_arena_ok_def)
  from nz al is_pow2_4096 a4096 s64
  have c2: "aligned_ptr test_platform s1 4096 64 = Inr (s1, storage_ptr s1)"
    by (rule aligned_ptr_reuse)
  have m1: "misaligned_ptr test_platform initial_state 64 128 0 = Inr (s1, storage_ptr s1)"
    using c1 by (simp add: misaligned_ptr_def)
  have m2: "misaligned_ptr test_platform s1 4096 64 5 = Inr (s1, storage_ptr s1 + 5)"
    using c2 by (simp add: misaligned_ptr_def)
  from test_large_arena_alloc obtain t0 b
    where init: "storage_static_init test_platform initial_state = Inr (t0, b)"
    by (rule storage_static_init_ok)
  have "(640 :: size_t) + 0 \<le> MAX_SHUFFLED_REGION_SIZE test_platform"
    and "(640 :: size_t) mod UB_CACHE_LINE_SIZE test_platform = 0"
    and "0 < (640 :: size_t) div UB_CACHE_LINE_SIZE test_platform"
    and "8 \<le> UB_CACHE_LINE_SIZE test_platform"
    by (simp_all add: test_platform_fields)
  from this test_platform_shuffle init obtain m
    where sh: "shuffled_region test_platform initial_state 640 0 =
      Some (Inr ((do_memset t0 (b + 0) 255 640)\<lparr>mem := m\<rparr>, \<lparr>region_size = 640, start = b + 0\<rparr>))"
    by (rule shuffled_region_built)
  let ?t1 = "(do_memset t0 (b + 0) 255 640)\<lparr>mem := m\<rparr>"
  let ?r = "\<lparr>region_size = 640, start = b + 0\<rparr>"
  note first = arenas_created_once[where s = initial_state and pf = test_platform and a = 64
      and required_size = 128 and s' = s1 and p = "storage_ptr s1" and k = 0
      and sz = 640 and offset = 0 and t' = ?t1 and r = ?r]
  note later = arenas_created_once[where s = s1 and pf = test_platform and a = 4096
      and required_size = 64 and s' = s1 and p = "storage_ptr s1 + 5" and k = 5
      and sz = 640 and offset = 0 and t' = ?t1 and r = ?r]
  have i0: "arenas_ok initial_state"
    using first by simp
  have ok1: "arenas_ok s1" and st1: "storage_static s1 = storage_static initial_state"
    using first c1 by simp_all
  have len1: "length (blocks s1) = 1"
    using ok1 nz st1 by (simp add: arenas_ok_def initial_state_def)
  have "arenas_ok s1 \<and> storage_ptr s1 \<noteq> 0"
    using later ok1 m2 by simp
  have t: "arenas_ok ?t1" "storage_ptr ?t1 = storage_ptr initial_state"
    and "\<exists>c. storage_static ?t1 = Some c \<and> start ?r = c + 0"
    using first sh by auto
  then obtain c where c: "storage_static ?t1 = Some c" "start ?r = c + 0"
    by blast
  have lent: "length (blocks ?t1) = 1"
    using t c by (simp add: arenas_ok_def initial_state_def)
  have "arenas_ok initial_state \<and>
     aligned_ptr test_platform initial_state 64 128 = Inr (s1, storage_ptr s1) \<and>
     misaligned_ptr test_platform initial_state 64 128 0 = Inr (s1, storage_ptr s1) \<and>
     arenas_ok s1 \<and> storage_ptr s1 \<noteq> 0 \<and> storage_static s1 = storage_static initial_state \<and>
     length (blocks s1) = 1 \<and>
     aligned_ptr test_platform s1 4096 64 = Inr (s1, storage_ptr s1) \<and>
     misaligned_ptr test_platform s1 4096 64 5 = Inr (s1, storage_ptr s1 + 5) \<and>
     shuffled_region test_platform initial_state 640 0 = Some (Inr (?t1, ?r)) \<and>
     arenas_ok ?t1 \<and> storage_ptr ?t1 = storage_ptr initial_state \<and>
     storage_static ?t1 = Some c \<and> start ?r = c + 0 \<and> length (blocks ?t1) = 1"
    using i0 c1 m1 ok1 nz st1 len1 c2 m2 sh t c lent by (intro conjI)
  then show ?thesis
    by blast
qed

end
